(* ===== verification/Prelude.thy ===== *)
theory Prelude
  imports Main "HOL-Library.Word"
begin

text \<open>
  Shared vocabulary of the development: the machine types of the crate (bytes, the
  16-bit \<open>Identifier\<close>), the three ways a Rust call can end (a value, an \<open>Err\<close>, a
  panic), the combinators for \<open>?\<close>, \<open>ok_or\<close> and \<open>unwrap\<close>, loops that can stop
  early, and the list facts the components share.
\<close>

unbundle bit_operations_syntax

named_theorems outcome_simps \<open>how the combinators on outcomes compute\<close>

section \<open>Machine types\<close>

type_synonym byte = "8 word"
type_synonym bytes = "byte list"

text \<open>\<open>pub type Identifier = u16\<close> (src/src/keygen.rs).\<close>

type_synonym Identifier = "16 word"

text \<open>The bytes of an ASCII literal, as in \<open>b"/Hnon"\<close> and \<open>CONTEXT.as_bytes()\<close>.\<close>

definition ascii :: "string \<Rightarrow> bytes" where
  "ascii s = map (\<lambda>c. of_nat (of_char c)) s"

text \<open>\<open>u16::to_be_bytes\<close> and \<open>u16::from_be_bytes\<close>.\<close>

definition to_be_bytes :: "Identifier \<Rightarrow> bytes" where
  "to_be_bytes i = [ucast (drop_bit 8 i), ucast i]"

definition from_be_bytes :: "byte \<Rightarrow> byte \<Rightarrow> Identifier" where
  "from_be_bytes hi lo = push_bit 8 (ucast hi) OR ucast lo"

lemma unat_Identifier_less: "unat (i :: Identifier) < 2 ^ 16"
proof -
  have "unsigned i < (2 ^ LENGTH(16) :: nat)" by (rule unsigned_less)
  then show ?thesis by simp
qed

lemma length_to_be_bytes [simp]: "length (to_be_bytes i) = 2"
  by (simp add: to_be_bytes_def)

lemma from_to_be_bytes: "from_be_bytes (ucast (drop_bit 8 i)) (ucast i) = i"
  unfolding from_be_bytes_def
  by (rule bit_word_eqI) (auto simp: bit_simps)

lemma from_be_bytes_nth [simp]:
  "from_be_bytes (to_be_bytes i ! 0) (to_be_bytes i ! Suc 0) = i"
  by (simp add: to_be_bytes_def from_to_be_bytes)

lemma inj_to_be_bytes: "to_be_bytes i = to_be_bytes j \<longleftrightarrow> i = j"
  by (metis from_be_bytes_nth)

lemma to_from_be_bytes: "to_be_bytes (from_be_bytes hi lo) = [hi, lo]"
proof -
  have "ucast (drop_bit 8 (from_be_bytes hi lo)) = hi"
    unfolding from_be_bytes_def
    by (rule bit_word_eqI) (auto simp: bit_simps dest: bit_imp_le_length)
  moreover have "ucast (from_be_bytes hi lo) = lo"
    unfolding from_be_bytes_def
    by (rule bit_word_eqI) (auto simp: bit_simps)
  ultimately show ?thesis by (simp add: to_be_bytes_def)
qed

section \<open>How a call ends\<close>

text \<open>
  A function that returns \<open>Result<T, E>\<close> ends with a value, with an error, or, where it
  reaches an \<open>unwrap\<close>, an assertion or a slice out of range, with a panic. A function with
  no \<open>Result\<close> that can still panic returns an option, \<open>None\<close> standing for the panic.
\<close>

datatype ('e, 'a) outcome = Ok 'a | Err 'e | Panic

fun and_then :: "('e, 'a) outcome \<Rightarrow> ('a \<Rightarrow> ('e, 'b) outcome) \<Rightarrow> ('e, 'b) outcome" where
  "and_then (Ok x) f = f x"
| "and_then (Err e) f = Err e"
| "and_then Panic f = Panic"

fun ok_or :: "'a option \<Rightarrow> 'e \<Rightarrow> ('e, 'a) outcome" where
  "ok_or (Some x) e = Ok x"
| "ok_or None e = Err e"

fun unwrap :: "'a option \<Rightarrow> ('e, 'a) outcome" where
  "unwrap (Some x) = Ok x"
| "unwrap None = Panic"

fun is_ok :: "('e, 'a) outcome \<Rightarrow> bool" where
  "is_ok (Ok _) = True"
| "is_ok _ = False"

lemma and_then_Ok_iff [outcome_simps]:
  "and_then m f = Ok y \<longleftrightarrow> (\<exists>x. m = Ok x \<and> f x = Ok y)"
  by (cases m) auto

lemma and_then_Err_iff [outcome_simps]:
  "and_then m f = Err e \<longleftrightarrow> m = Err e \<or> (\<exists>x. m = Ok x \<and> f x = Err e)"
  by (cases m) auto

lemma and_then_Panic_iff [outcome_simps]:
  "and_then m f = Panic \<longleftrightarrow> m = Panic \<or> (\<exists>x. m = Ok x \<and> f x = Panic)"
  by (cases m) auto

lemma ok_or_Ok_iff [outcome_simps]: "ok_or x e = Ok y \<longleftrightarrow> x = Some y"
  by (cases x) auto

lemma ok_or_Err_iff [outcome_simps]: "ok_or x e = Err e' \<longleftrightarrow> x = None \<and> e' = e"
  by (cases x) auto

lemma ok_or_no_Panic [simp]: "ok_or x e \<noteq> Panic"
  by (cases x) auto

lemma unwrap_Ok_iff [outcome_simps]: "unwrap x = Ok y \<longleftrightarrow> x = Some y"
  by (cases x) auto

lemma unwrap_Panic_iff [outcome_simps]: "unwrap x = Panic \<longleftrightarrow> x = None"
  by (cases x) auto

lemma unwrap_no_Err [simp]: "unwrap x \<noteq> Err e"
  by (cases x) auto

lemma is_ok_iff [outcome_simps]: "is_ok m \<longleftrightarrow> (\<exists>x. m = Ok x)"
  by (cases m) auto

section \<open>Loops\<close>

text \<open>A \<open>for\<close> loop whose body can leave the function through \<open>?\<close>.\<close>

fun try_fold :: "('b \<Rightarrow> 'a \<Rightarrow> ('e, 'b) outcome) \<Rightarrow> 'b \<Rightarrow> 'a list \<Rightarrow> ('e, 'b) outcome" where
  "try_fold f acc [] = Ok acc"
| "try_fold f acc (x # xs) = and_then (f acc x) (\<lambda>acc'. try_fold f acc' xs)"

text \<open>A \<open>for\<close> loop whose body can panic.\<close>

fun opt_fold :: "('b \<Rightarrow> 'a \<Rightarrow> 'b option) \<Rightarrow> 'b \<Rightarrow> 'a list \<Rightarrow> 'b option" where
  "opt_fold f acc [] = Some acc"
| "opt_fold f acc (x # xs) = Option.bind (f acc x) (\<lambda>acc'. opt_fold f acc' xs)"

lemma try_fold_append:
  "try_fold f acc (xs @ ys) = and_then (try_fold f acc xs) (\<lambda>a. try_fold f a ys)"
proof (induction xs arbitrary: acc)
  case (Cons x xs)
  then show ?case by (cases "f acc x") auto
qed simp

lemma opt_fold_append:
  "opt_fold f acc (xs @ ys) = Option.bind (opt_fold f acc xs) (\<lambda>a. opt_fold f a ys)"
proof (induction xs arbitrary: acc)
  case (Cons x xs)
  then show ?case by (cases "f acc x") auto
qed simp

lemma opt_fold_total:
  assumes "\<And>acc x. x \<in> set xs \<Longrightarrow> f acc x = Some (g acc x)"
  shows "opt_fold f acc xs = Some (foldl g acc xs)"
  using assms by (induction xs arbitrary: acc) auto

lemma try_fold_total:
  assumes "\<And>acc x. x \<in> set xs \<Longrightarrow> f acc x = Ok (g acc x)"
  shows "try_fold f acc xs = Ok (foldl g acc xs)"
  using assms by (induction xs arbitrary: acc) auto

lemma try_fold_returns:
  assumes "\<And>acc x. x \<in> set xs \<Longrightarrow> \<exists>b. f acc x = Ok b"
  shows "\<exists>r. try_fold f acc xs = Ok r"
  using assms
proof (induction xs arbitrary: acc)
  case (Cons x xs)
  obtain b where "f acc x = Ok b" using Cons.prems [of x acc] by auto
  with Cons show ?case by simp
qed simp

lemma opt_fold_inv:
  assumes "opt_fold f acc xs = Some r" "P acc"
    and "\<And>a x b. x \<in> set xs \<Longrightarrow> P a \<Longrightarrow> f a x = Some b \<Longrightarrow> P b"
  shows "P r"
  using assms
proof (induction xs arbitrary: acc)
  case (Cons x xs)
  then show ?case by (cases "f acc x") auto
qed simp

lemma try_fold_inv:
  assumes "try_fold f acc xs = Ok r" "P acc"
    and "\<And>a x b. x \<in> set xs \<Longrightarrow> P a \<Longrightarrow> f a x = Ok b \<Longrightarrow> P b"
  shows "P r"
  using assms
proof (induction xs arbitrary: acc)
  case (Cons x xs)
  then show ?case by (cases "f acc x") auto
qed simp

lemma opt_fold_None:
  assumes "x \<in> set xs" "\<And>acc. f acc x = None"
  shows "opt_fold f acc xs = None"
  using assms
proof (induction xs arbitrary: acc)
  case (Cons y ys)
  then show ?case by (cases "f acc y") auto
qed simp

lemma opt_fold_None_inv:
  assumes "x \<in> set xs" "P acc"
    and inv: "\<And>a y b. y \<in> set xs \<Longrightarrow> P a \<Longrightarrow> f a y = Some b \<Longrightarrow> P b"
    and "\<And>a. P a \<Longrightarrow> f a x = None"
  shows "opt_fold f acc xs = None"
  using assms(1,2) inv
proof (induction xs arbitrary: acc)
  case (Cons y ys)
  show ?case
  proof (cases "f acc y")
    case (Some b)
    with Cons.prems assms(4) have "x \<in> set ys" "P b" by auto
    then have "opt_fold f b ys = None"
      by (rule Cons.IH) (meson Cons.prems(3) list.set_intros(2))
    with Some show ?thesis by simp
  qed simp
qed simp

section \<open>Lists and sums\<close>

lemma foldl_plus_map:
  "foldl (\<lambda>acc x. acc + f x) a xs = (a :: 'a :: comm_monoid_add) + sum_list (map f xs)"
  by (induction xs arbitrary: a) (auto simp: add.assoc)

lemma foldl_append_map: "foldl (\<lambda>out x. out @ f x) acc xs = acc @ concat (map f xs)"
  by (induction xs arbitrary: acc) auto

lemma sum_list_map_add:
  "sum_list (map (\<lambda>x. f x + g x) xs) = sum_list (map f xs) + (sum_list (map g xs) :: 'a :: comm_monoid_add)"
  by (induction xs) (auto simp: algebra_simps)

lemma sum_list_map_mult:
  "sum_list (map (\<lambda>x. c * f x) xs) = (c :: 'a :: comm_semiring_0) * sum_list (map f xs)"
  by (induction xs) (auto simp: algebra_simps)

text \<open>\<open>a..=b\<close> over \<open>u16\<close>: the inclusive range never overflows, even up to 65535.\<close>

definition range_incl :: "Identifier \<Rightarrow> Identifier \<Rightarrow> Identifier list" where
  "range_incl a b = map of_nat [unat a ..< Suc (unat b)]"

lemma set_range_incl: "set (range_incl a b) = {i. a \<le> i \<and> i \<le> b}"
proof (rule set_eqI)
  fix i :: Identifier
  have "i \<in> set (range_incl a b) \<longleftrightarrow> (\<exists>n. unat a \<le> n \<and> n \<le> unat b \<and> i = of_nat n)"
    by (auto simp: range_incl_def less_Suc_eq_le)
  also have "\<dots> \<longleftrightarrow> unat a \<le> unat i \<and> unat i \<le> unat b"
  proof
    assume "\<exists>n. unat a \<le> n \<and> n \<le> unat b \<and> i = of_nat n"
    then obtain n where n: "unat a \<le> n" "n \<le> unat b" "i = of_nat n" by blast
    then have "unat i = n"
      using unat_Identifier_less [of b] by (simp add: unat_of_nat)
    with n show "unat a \<le> unat i \<and> unat i \<le> unat b" by simp
  next
    assume "unat a \<le> unat i \<and> unat i \<le> unat b"
    then show "\<exists>n. unat a \<le> n \<and> n \<le> unat b \<and> i = of_nat n"
      by (intro exI [of _ "unat i"]) simp
  qed
  finally show "i \<in> set (range_incl a b) \<longleftrightarrow> i \<in> {i. a \<le> i \<and> i \<le> b}"
    by (simp add: word_le_nat_alt)
qed

lemma strict_sorted_range_incl: "sorted_wrt (<) (range_incl a b)"
proof -
  have "sorted_wrt (\<lambda>m n. (of_nat m :: Identifier) < of_nat n) [unat a ..< Suc (unat b)]"
  proof (rule sorted_wrt_mono_rel [OF _ sorted_wrt_upt])
    fix m n
    assume "m \<in> set [unat a ..< Suc (unat b)]" "n \<in> set [unat a ..< Suc (unat b)]" "m < n"
    moreover have "unat b < 2 ^ 16" by (rule unat_Identifier_less)
    ultimately show "(of_nat m :: Identifier) < of_nat n"
      by (auto simp: word_less_nat_alt unat_of_nat)
  qed
  then show ?thesis by (simp add: range_incl_def sorted_wrt_map)
qed

lemma distinct_range_incl [simp]: "distinct (range_incl a b)"
  using strict_sorted_range_incl by (simp add: strict_sorted_iff)

end
