(* ===== verification/BTree_Map.thy ===== *)
theory BTree_Map
  imports Prelude
begin

text \<open>
  \<open>std::collections::BTreeMap\<close>: the ordered map every message of the protocol is made
  of. A value is the list of its entries in key order, so the order in which the code
  iterates (which decides the bytes it hashes) is part of the model. The interface the
  protocol relies on is the locale \<open>ordered_map\<close>; it is discharged here for the
  operations below.
\<close>

section \<open>The interface\<close>

locale ordered_map =
  fixes empty :: "'m"
    and insert :: "'k :: linorder \<Rightarrow> 'v \<Rightarrow> 'm \<Rightarrow> 'm"
    and get :: "'m \<Rightarrow> 'k \<Rightarrow> 'v option"
    and items :: "'m \<Rightarrow> ('k \<times> 'v) list"
  assumes get_empty: "get empty k = None"
    and get_insert: "get (insert k v m) k' = (if k' = k then Some v else get m k')"
    and items_sorted: "sorted_wrt (<) (map fst (items m))"
    and items_get: "map_of (items m) = get m"
begin

text \<open>A loop that inserts one entry per element of a list of keys.\<close>

lemma get_foldl_insert:
  "get (foldl (\<lambda>m x. insert x (f x) m) m0 xs) k =
     (if k \<in> set xs then Some (f k) else get m0 k)"
  by (induction xs arbitrary: m0) (auto simp: get_insert)

lemma items_distinct: "distinct (map fst (items m))"
  using items_sorted strict_sorted_iff by blast

lemma items_mem_iff: "(k, v) \<in> set (items m) \<longleftrightarrow> get m k = Some v"
  using map_of_eq_Some_iff [OF items_distinct] by (simp add: items_get)

lemma items_keys: "fst ` set (items m) = {k. get m k \<noteq> None}"
  by (simp add: dom_map_of_conv_image_fst [symmetric] items_get dom_def)

text \<open>Two maps with the same lookups are iterated in the same order.\<close>

lemma items_unique:
  assumes "\<And>k. get m k = get n k"
  shows "items m = items n"
proof -
  have "map_of (items m) = map_of (items n)"
    using assms by (simp add: items_get fun_eq_iff)
  then have "set (items m) = set (items n)"
    using map_of_inject_set [OF items_distinct items_distinct] by blast
  moreover have "inj_on fst (set (items m) \<union> set (items n))"
    using calculation items_distinct [of m] by (simp add: distinct_map)
  ultimately show ?thesis
    using map_sorted_distinct_set_unique [of fst "items m" "items n"] items_sorted
    by (simp add: strict_sorted_iff)
qed

end

section \<open>The type and its operations\<close>

typedef (overloaded) ('k :: linorder, 'v) btree_map =
  "{xs :: ('k \<times> 'v) list. sorted_wrt (<) (map fst xs)}"
  morphisms bt_entries Btree
  by (rule exI [of _ "[]"]) simp

setup_lifting type_definition_btree_map

fun insert_entry :: "'k :: linorder \<Rightarrow> 'v \<Rightarrow> ('k \<times> 'v) list \<Rightarrow> ('k \<times> 'v) list" where
  "insert_entry k v [] = [(k, v)]"
| "insert_entry k v (p # ps) =
     (if k < fst p then (k, v) # p # ps
      else if k = fst p then (k, v) # ps
      else p # insert_entry k v ps)"

lemma set_keys_insert_entry:
  "fst ` set (insert_entry k v xs) = insert k (fst ` set xs)"
  by (induction xs) auto

lemma sorted_insert_entry:
  "sorted_wrt (<) (map fst xs) \<Longrightarrow> sorted_wrt (<) (map fst (insert_entry k v xs))"
proof (induction xs)
  case (Cons p ps)
  have keys: "set (map fst (insert_entry k v ps)) = insert k (fst ` set ps)"
    by (simp add: set_keys_insert_entry)
  from Cons show ?case
    using keys by (auto simp: less_trans)
qed simp

lemma map_of_insert_entry: "map_of (insert_entry k v xs) = (map_of xs)(k \<mapsto> v)"
  by (induction xs) auto

text \<open>\<open>BTreeMap::new\<close>, \<open>insert\<close>, \<open>get\<close>, \<open>keys\<close>, \<open>values\<close>, \<open>len\<close>, \<open>contains_key\<close>;
  \<open>for (k, v) in map\<close> goes through \<open>bt_entries\<close>.\<close>

lift_definition bt_empty :: "('k :: linorder, 'v) btree_map" is "[]" by simp

lift_definition bt_insert ::
  "'k :: linorder \<Rightarrow> 'v \<Rightarrow> ('k, 'v) btree_map \<Rightarrow> ('k, 'v) btree_map" is insert_entry
  by (rule sorted_insert_entry)

text \<open>A loop over \<open>values_mut\<close>: every value is updated in place.\<close>

lift_definition bt_map_values ::
  "('v \<Rightarrow> 'w) \<Rightarrow> ('k :: linorder, 'v) btree_map \<Rightarrow> ('k, 'w) btree_map" is
  "\<lambda>f. map (\<lambda>(k, v). (k, f v))"
  by (simp add: comp_def case_prod_unfold)

definition bt_get :: "('k :: linorder, 'v) btree_map \<Rightarrow> 'k \<Rightarrow> 'v option" where
  "bt_get m k = map_of (bt_entries m) k"

definition bt_keys :: "('k :: linorder, 'v) btree_map \<Rightarrow> 'k list" where
  "bt_keys m = map fst (bt_entries m)"

definition bt_values :: "('k :: linorder, 'v) btree_map \<Rightarrow> 'v list" where
  "bt_values m = map snd (bt_entries m)"

definition bt_len :: "('k :: linorder, 'v) btree_map \<Rightarrow> nat" where
  "bt_len m = length (bt_entries m)"

definition bt_contains_key :: "('k :: linorder, 'v) btree_map \<Rightarrow> 'k \<Rightarrow> bool" where
  "bt_contains_key m k = (bt_get m k \<noteq> None)"

text \<open>\<open>map.get_mut(&k).unwrap()\<close> followed by an update of the entry: \<open>None\<close> is the panic.\<close>

definition bt_update ::
  "'k :: linorder \<Rightarrow> ('v \<Rightarrow> 'v) \<Rightarrow> ('k, 'v) btree_map \<Rightarrow> ('k, 'v) btree_map option" where
  "bt_update k f m = map_option (\<lambda>v. bt_insert k (f v) m) (bt_get m k)"

lemma bt_entries_sorted: "sorted_wrt (<) (map fst (bt_entries m))"
  using bt_entries [of m] by simp

interpretation btm: ordered_map bt_empty bt_insert bt_get bt_entries
proof unfold_locales
  show "bt_get (bt_empty :: ('a, 'b) btree_map) k = None" for k :: 'a
    by (simp add: bt_get_def bt_empty.rep_eq)
  show "bt_get (bt_insert k v m) k' = (if k' = k then Some v else bt_get m k')"
    for k k' :: 'a and v :: 'b and m
    by (simp add: bt_get_def bt_insert.rep_eq map_of_insert_entry)
  show "sorted_wrt (<) (map fst (bt_entries m))" for m :: "('a, 'b) btree_map"
    by (rule bt_entries_sorted)
  show "map_of (bt_entries m) = bt_get m" for m :: "('a, 'b) btree_map"
    by (simp add: bt_get_def fun_eq_iff)
qed

declare btm.get_empty [simp] btm.get_insert [simp]

instantiation btree_map :: (linorder, equal) equal
begin

definition equal_btree_map :: "('a, 'b) btree_map \<Rightarrow> ('a, 'b) btree_map \<Rightarrow> bool" where
  "equal_btree_map m n \<longleftrightarrow> bt_entries m = bt_entries n"

instance
  by standard (simp add: equal_btree_map_def bt_entries_inject)

end

section \<open>Facts the protocol uses\<close>

lemma bt_eqI: "(\<And>k. bt_get m k = bt_get n k) \<Longrightarrow> m = n"
  using btm.items_unique bt_entries_inject by blast

lemma set_bt_keys: "set (bt_keys m) = {k. bt_get m k \<noteq> None}"
  by (simp add: bt_keys_def btm.items_keys)

lemma bt_keys_mem [simp]: "k \<in> set (bt_keys m) \<longleftrightarrow> bt_contains_key m k"
  by (simp add: set_bt_keys bt_contains_key_def)

lemma bt_contains_keyE:
  assumes "bt_contains_key m k" obtains v where "bt_get m k = Some v"
  using assms by (auto simp: bt_contains_key_def)

lemma distinct_bt_keys [simp]: "distinct (bt_keys m)"
  by (simp add: bt_keys_def btm.items_distinct)

lemma sorted_bt_keys [simp]: "sorted_wrt (<) (bt_keys m)"
  by (simp add: bt_keys_def bt_entries_sorted)

lemma length_bt_keys [simp]: "length (bt_keys m) = bt_len m"
  by (simp add: bt_keys_def bt_len_def)

lemma bt_entries_conv: "bt_entries m = map (\<lambda>k. (k, the (bt_get m k))) (bt_keys m)"
proof -
  have "(fst p, the (bt_get m (fst p))) = p" if "p \<in> set (bt_entries m)" for p
    using that btm.items_mem_iff [of "fst p" "snd p" m] by simp
  then show ?thesis by (simp add: bt_keys_def comp_def map_idI)
qed

lemma bt_values_conv: "bt_values m = map (\<lambda>k. the (bt_get m k)) (bt_keys m)"
  by (simp add: bt_values_def bt_entries_conv comp_def)

text \<open>A map filled by one insertion per key of a list without duplicates.\<close>

definition bt_of_list :: "'k :: linorder list \<Rightarrow> ('k \<Rightarrow> 'v) \<Rightarrow> ('k, 'v) btree_map" where
  "bt_of_list ks f = foldl (\<lambda>m k. bt_insert k (f k) m) bt_empty ks"

lemma bt_get_of_list [simp]: "bt_get (bt_of_list ks f) k = (if k \<in> set ks then Some (f k) else None)"
  by (simp add: bt_of_list_def btm.get_foldl_insert)

lemma bt_keys_unique:
  assumes "sorted_wrt (<) ks" "\<And>k. bt_contains_key m k \<longleftrightarrow> k \<in> set ks"
  shows "bt_keys m = ks"
proof -
  have "set (bt_keys m) = set ks"
    by (rule set_eqI) (simp add: assms(2))
  then show ?thesis
    using strict_sorted_equal [OF sorted_bt_keys assms(1)] by blast
qed

lemma bt_keys_of_list: "sorted_wrt (<) ks \<Longrightarrow> bt_keys (bt_of_list ks f) = ks"
  by (rule bt_keys_unique) (auto simp: bt_contains_key_def)

lemma bt_get_map_values [simp]: "bt_get (bt_map_values f m) k = map_option f (bt_get m k)"
proof -
  have "map_of (map (\<lambda>(k, v). (k, f v)) xs) k = map_option f (map_of xs k)" for xs
    by (induction xs) auto
  then show ?thesis by (simp add: bt_get_def bt_map_values.rep_eq)
qed

lemma bt_update_Some:
  "bt_update k f m = Some m' \<longleftrightarrow> (\<exists>v. bt_get m k = Some v \<and> m' = bt_insert k (f v) m)"
  by (auto simp: bt_update_def)

end
