(* ===== verification/Ciphersuite_Trait.thy ===== *)
theory Ciphersuite_Trait
  imports BTree_Map
begin

text \<open>
  src/src/ciphersuite/mod.rs: the \<open>ScalarHasher\<close> and \<open>Ciphersuite\<close> traits. The trait
  bounds on \<open>C::Scalar\<close> (a prime field) and \<open>C::Point\<close> (a group) become the type
  classes \<open>field\<close> and \<open>ab_group_add\<close>; the operations the bounds bring in from the
  \<open>ff\<close> and \<open>group\<close> crates are the fields of \<open>curve_lib\<close>, parameters of the model;
  the items of the trait itself are the fields of \<open>ciphersuite\<close>. A method that can
  panic in one of the implementations has an optional result.

  The locales state what the protocol relies on: \<open>prime_subgroup\<close> for the group
  crate, \<open>suite_contract\<close> for an implementation of the trait. Points that come from the
  wire may lie outside the subgroup of the generator (edwards25519 has cofactor 8), so
  the module laws are assumed for multiples of the generator only.
\<close>

section \<open>What the trait bounds provide\<close>

record ('s, 'p) curve_lib =
  generator :: 'p
  point_mul :: "'p \<Rightarrow> 's \<Rightarrow> 'p"
  point_to_repr :: "'p \<Rightarrow> bytes"
  point_of_repr :: "bytes \<Rightarrow> 'p option"
  point_repr_len :: nat
  scalar_to_repr :: "'s \<Rightarrow> bytes"
  scalar_of_repr :: "bytes \<Rightarrow> 's option"
  scalar_repr_len :: nat
  from_uniform_bytes :: "bytes \<Rightarrow> 's"

text \<open>\<open>R: CryptoRng\<close> with \<open>Scalar::random(rng)\<close> and \<open>rng.fill_bytes\<close>, the state passed on.\<close>

record ('r, 's) rng_lib =
  scalar_random :: "'r \<Rightarrow> 's \<times> 'r"
  fill_bytes :: "nat \<Rightarrow> 'r \<Rightarrow> bytes \<times> 'r"

text \<open>\<open>C::Scalar::from(id as u64)\<close>: the image of the integer in the field.\<close>

definition scalar_from :: "Identifier \<Rightarrow> 's :: field" where
  "scalar_from i = of_nat (unat i)"

text \<open>\<open>Field::invert\<close>, a \<open>CtOption\<close> that is empty for zero.\<close>

definition invert :: "'s :: field \<Rightarrow> 's option" where
  "invert x = (if x = 0 then None else Some (inverse x))"

section \<open>The traits\<close>

record ('s, 'p, 'h) ciphersuite = "('s, 'p) curve_lib" +
  CONTEXT :: string
  SCHEME_ID :: string
  hasher_new :: 'h
  hasher_update :: "'h \<Rightarrow> bytes \<Rightarrow> 'h"
  hasher_finish :: "'h \<Rightarrow> 's"
  hash_commitment :: "bytes list \<Rightarrow> bytes"
  mul_generator :: "'s \<Rightarrow> 'p"
  pedersen_generator :: "'p option"
  challenge :: "'p \<Rightarrow> 'p \<Rightarrow> bytes \<Rightarrow> 's option"
  normalize_keygen :: "'s \<Rightarrow> 'p \<Rightarrow> 's \<times> 'p"
  normalize_share_r :: "'p \<Rightarrow> 's \<Rightarrow> 'p \<times> 's"
  accept_r :: "'p \<Rightarrow> bool"

text \<open>The provided methods.\<close>

definition finish_with :: "('s, 'p, 'h) ciphersuite \<Rightarrow> 'h \<Rightarrow> bytes \<Rightarrow> 's" where
  "finish_with C h data = hasher_finish C (hasher_update C h data)"

definition hash_to_scalar :: "('s, 'p, 'h) ciphersuite \<Rightarrow> bytes list \<Rightarrow> 's" where
  "hash_to_scalar C parts = hasher_finish C (foldl (hasher_update C) (hasher_new C) parts)"

definition point_bytes :: "('s, 'p, 'h) ciphersuite \<Rightarrow> 'p \<Rightarrow> bytes" where
  "point_bytes C p = point_to_repr C p"

definition default_mul_generator :: "('s, 'p, 'z) curve_lib_scheme \<Rightarrow> 's \<Rightarrow> 'p" where
  "default_mul_generator L k = point_mul L (generator L) k"

definition default_normalize_keygen :: "'s \<Rightarrow> 'p \<Rightarrow> 's \<times> 'p" where
  "default_normalize_keygen sk vk = (sk, vk)"

definition default_normalize_share_r :: "'p \<Rightarrow> 's \<Rightarrow> 'p \<times> 's" where
  "default_normalize_share_r r nonce = (r, nonce)"

definition default_accept_r :: "'p \<Rightarrow> bool" where
  "default_accept_r r = True"

text \<open>
  The probe of src/src/ia.rs line 464: the scalar part of \<open>normalize_share_r(R, ONE)\<close>,
  which recovers whether the ciphersuite negates the nonce for this \<open>R\<close>.
\<close>

definition share_sign :: "('s :: field, 'p, 'h) ciphersuite \<Rightarrow> 'p \<Rightarrow> 's" where
  "share_sign C r = snd (normalize_share_r C r 1)"

section \<open>What an implementation promises\<close>

text \<open>Absorbing data piecewise gives the digest of the concatenation.\<close>

locale scalar_hasher =
  fixes new :: 'h
    and update :: "'h \<Rightarrow> bytes \<Rightarrow> 'h"
    and finish :: "'h \<Rightarrow> 'd"
    and digest :: "bytes \<Rightarrow> 'd"
  assumes finish_parts: "finish (foldl update new parts) = digest (concat parts)"
begin

lemma finish_split:
  "concat ps = concat qs \<Longrightarrow> finish (foldl update new ps) = finish (foldl update new qs)"
  by (simp add: finish_parts)

lemma finish_clone:
  "finish (update (foldl update new ps) d) = digest (concat ps @ d)"
  using finish_parts [of "ps @ [d]"] by simp

end

locale prime_subgroup =
  fixes mul :: "'p :: ab_group_add \<Rightarrow> 's :: field \<Rightarrow> 'p"
    and gen :: 'p
  assumes gen_add: "mul gen a + mul gen b = mul gen (a + b)"
    and gen_mul: "mul (mul gen a) b = mul gen (a * b)"
    and gen_one: "mul gen 1 = gen"
    and gen_faithful: "mul gen a = 0 \<Longrightarrow> a = 0"
    and mul_points: "mul (P + Q) a = mul P a + mul Q a"
begin

lemma gen_zero: "mul gen 0 = 0"
  using gen_add [of 0 0] by simp

lemma gen_neg: "- mul gen a = mul gen (- a)"
  using gen_add [of a "- a"] by (simp add: gen_zero minus_unique)

lemma gen_diff: "mul gen a - mul gen b = mul gen (a - b)"
  using gen_add [of a "- b"] by (simp add: gen_neg [symmetric])

lemma gen_eq_iff: "mul gen a = mul gen b \<longleftrightarrow> a = b"
proof
  assume "mul gen a = mul gen b"
  then have "mul gen (a - b) = 0" by (simp add: gen_diff [symmetric])
  then show "a = b" using gen_faithful by fastforce
qed simp

lemma gen_eq_0_iff: "mul gen a = 0 \<longleftrightarrow> a = 0"
  using gen_eq_iff [of a 0] by (simp add: gen_zero)

lemma gen_sum_list: "sum_list (map (\<lambda>x. mul gen (f x)) xs) = mul gen (sum_list (map f xs))"
  by (induction xs) (simp_all add: gen_zero gen_add)

lemma mul_zero_point: "mul 0 a = 0"
  using mul_points [of 0 0 a] by simp

text \<open>Every computation on multiples of the generator is one on their scalars.\<close>

lemmas gen_calc = gen_add gen_mul gen_neg gen_diff gen_zero gen_sum_list

end

locale suite_contract =
  prime_subgroup "point_mul C" "generator C"
  for C :: "('s :: field, 'p :: ab_group_add, 'h) ciphersuite" +
  assumes mul_generator_eq: "mul_generator C k = point_mul C (generator C) k"
    and pedersen_in_subgroup:
      "pedersen_generator C = Some h \<Longrightarrow> \<exists>x. h = point_mul C (generator C) x"
    and small_integers_differ: "inj_on (of_nat :: nat \<Rightarrow> 's) {..< 2 ^ 16}"
    and normalize_keygen_pair:
      "normalize_keygen C sk (point_mul C (generator C) sk) = (sk', vk') \<Longrightarrow>
         vk' = point_mul C (generator C) sk' \<and> (sk' = sk \<or> sk' = - sk)"
    and normalize_keygen_idem:
      "normalize_keygen C sk (point_mul C (generator C) sk) = (sk', vk') \<Longrightarrow>
         normalize_keygen C sk' vk' = (sk', vk')"
    and normalize_share_r_cases:
      "normalize_share_r C r n = (r, n) \<and> share_sign C r = 1 \<or>
       normalize_share_r C r n = (- r, - n) \<and> share_sign C r = - 1"
    and challenge_normalized:
      "challenge C vk (fst (normalize_share_r C r n)) msg = challenge C vk r msg"
    and accept_normalized: "accept_r C (fst (normalize_share_r C r n))"
begin

lemma scalar_from_inj: "scalar_from i = (scalar_from j :: 's) \<longleftrightarrow> i = j"
proof
  assume "scalar_from i = (scalar_from j :: 's)"
  then have "unat i = unat j"
    using small_integers_differ unat_Identifier_less [of i] unat_Identifier_less [of j]
    by (auto simp: scalar_from_def inj_on_def)
  then show "i = j" by (simp only: unsigned_word_eqI)
qed simp

lemma one_neq_minus_one: "(1 :: 's) \<noteq> - 1"
proof
  assume "(1 :: 's) = - 1"
  then have "of_nat 2 = (of_nat 0 :: 's)" by (simp add: eq_neg_iff_add_eq_0)
  then have "(2 :: nat) = 0"
    by (rule inj_onD [OF small_integers_differ]) simp_all
  then show False by simp
qed

lemma share_sign_sq: "share_sign C r * share_sign C r = 1"
  using normalize_share_r_cases [of r 1] by auto

lemma normalize_share_r_scalar: "snd (normalize_share_r C r n) = share_sign C r * n"
  using normalize_share_r_cases [of r n] by auto

lemma normalize_share_r_point:
  "r = point_mul C (generator C) a \<Longrightarrow>
   fst (normalize_share_r C r n) = point_mul C (generator C) (share_sign C r * a)"
  using normalize_share_r_cases [of r n] by (auto simp: gen_neg)

lemma normalize_share_r_fst: "fst (normalize_share_r C r n) = fst (normalize_share_r C r m)"
  using normalize_share_r_cases [of r n] normalize_share_r_cases [of r m] one_neq_minus_one
  by auto

end

end
