(* ===== verification/Interpolation.thy ===== *)
theory Interpolation
  imports Prelude
begin

text \<open>
  The algebra behind \<open>lagrange\<close> of src/src/utils.rs, over any field: the coefficients
  that interpolate at zero, and the theorem that they recover the constant term of a
  polynomial with at most as many coefficients as there are points.
\<close>

definition lag :: "'i set \<Rightarrow> ('i \<Rightarrow> 's :: field) \<Rightarrow> 'i \<Rightarrow> 's" where
  "lag S x i = (\<Prod>j\<in>S - {i}. x j / (x j - x i))"

definition poly_at :: "'s :: comm_semiring_1 list \<Rightarrow> 's \<Rightarrow> 's" where
  "poly_at cs x = (\<Sum>k<length cs. cs ! k * x ^ k)"

lemma lag_remove:
  assumes "finite S" "a \<in> S" "i \<noteq> a"
  shows "lag S x i = lag (S - {a}) x i * (x a / (x a - x i))"
proof -
  have "S - {i} = insert a (S - {a} - {i})" using assms by blast
  then show ?thesis
    using assms by (simp add: lag_def mult.commute)
qed

lemma lag_pair_step:
  fixes x :: "'i \<Rightarrow> 's :: field"
  assumes "finite S" "a \<in> S" "b \<in> S" "a \<noteq> b" "inj_on x S" "i \<in> S"
  shows "(x b - x a) * lag S x i =
    x b * (if i = b then 0 else lag (S - {b}) x i) - x a * (if i = a then 0 else lag (S - {a}) x i)"
proof -
  have ne: "x b - x a \<noteq> 0" "x a - x b \<noteq> 0"
    using assms by (auto simp: inj_on_eq_iff)
  consider "i = a" | "i = b" | "i \<noteq> a" "i \<noteq> b" by blast
  then show ?thesis
  proof cases
    case 1
    then show ?thesis
      using lag_remove [of S b a x] assms ne by (simp add: field_simps)
  next
    case 2
    have "(x b - x a) * (l * (x a / (x a - x b))) = - (x a * l)" for l
      using ne by (simp add: field_simps)
    then show ?thesis
      using lag_remove [of S a b x] assms 2 ne by simp
  next
    case 3
    define l where "l = lag (S - {a} - {b}) x i"
    have ni: "x a - x i \<noteq> 0" "x b - x i \<noteq> 0"
      using assms 3 by (auto simp: inj_on_eq_iff)
    have la: "lag (S - {a}) x i = l * (x b / (x b - x i))"
      unfolding l_def using lag_remove [of "S - {a}" b i x] assms 3 by simp
    have lb: "lag (S - {b}) x i = l * (x a / (x a - x i))"
      unfolding l_def using lag_remove [of "S - {b}" a i x] assms 3
      by (simp add: Diff_insert2 [symmetric] insert_commute)
    have "lag S x i = l * (x b / (x b - x i)) * (x a / (x a - x i))"
      using lag_remove [of S a i x] assms 3 la by simp
    moreover have "(x b - x a) * (l * (x b / (x b - x i)) * (x a / (x a - x i))) =
        x b * (l * (x a / (x a - x i))) - x a * (l * (x b / (x b - x i)))"
      using ni by (simp add: divide_simps) (simp add: algebra_simps)
    ultimately show ?thesis using 3 la lb by simp
  qed
qed

lemma sum_without: "finite S \<Longrightarrow> (\<Sum>i\<in>S. if i = a then 0 else f i) = sum f (S - {a})"
  by (simp add: sum.If_cases Diff_eq)

lemma lag_sum_one:
  fixes x :: "'i \<Rightarrow> 's :: field"
  assumes "finite S" "S \<noteq> {}" "inj_on x S"
  shows "(\<Sum>i\<in>S. lag S x i) = 1"
  using assms
proof (induction "card S" arbitrary: S rule: less_induct)
  case less
  show ?case
  proof (cases "\<exists>a. S = {a}")
    case True
    then show ?thesis by (auto simp: lag_def)
  next
    case False
    then obtain a b where ab: "a \<in> S" "b \<in> S" "a \<noteq> b"
      using less.prems(2) by blast
    have one: "(\<Sum>i\<in>S - {c}. lag (S - {c}) x i) = 1" if "c \<in> S" "S - {c} \<noteq> {}" for c
      using less.prems that
      by (intro less.hyps) (auto simp: inj_on_diff card_gt_0_iff)
    have "(x b - x a) * (\<Sum>i\<in>S. lag S x i) =
        (\<Sum>i\<in>S. x b * (if i = b then 0 else lag (S - {b}) x i)
               - x a * (if i = a then 0 else lag (S - {a}) x i))"
      unfolding sum_distrib_left
      by (intro sum.cong refl lag_pair_step less.prems ab)
    also have "\<dots> = x b * (\<Sum>i\<in>S - {b}. lag (S - {b}) x i)
                  - x a * (\<Sum>i\<in>S - {a}. lag (S - {a}) x i)"
      by (simp only: sum_subtractf sum_distrib_left [symmetric] sum_without [OF less.prems(1)])
    also have "\<dots> = x b - x a"
    proof -
      have "S - {a} \<noteq> {}" "S - {b} \<noteq> {}" using ab by blast+
      then show ?thesis using one ab by simp
    qed
    finally have eq: "(x b - x a) * (\<Sum>i\<in>S. lag S x i) = x b - x a" .
    have "x b - x a \<noteq> 0"
      using ab less.prems by (auto simp: inj_on_eq_iff)
    with eq show ?thesis by simp
  qed
qed

lemma lag_power_step:
  fixes x :: "'i \<Rightarrow> 's :: field"
  assumes "finite S" "a \<in> S" "inj_on x S"
  shows "(\<Sum>i\<in>S. lag S x i * x i ^ Suc k) =
    x a * ((\<Sum>i\<in>S. lag S x i * x i ^ k) - (\<Sum>i\<in>S - {a}. lag (S - {a}) x i * x i ^ k))"
proof -
  have "lag S x i * x i ^ Suc k =
      x a * (lag S x i * x i ^ k) - x a * (if i = a then 0 else lag (S - {a}) x i * x i ^ k)"
    if "i \<in> S" for i
  proof (cases "i = a")
    case False
    with assms that have "x a - x i \<noteq> 0" by (auto simp: inj_on_eq_iff)
    then have "x a * lag S x i - x i * lag S x i = x a * lag (S - {a}) x i"
      using lag_remove [OF assms(1,2) False, of x] by (simp add: field_simps)
    then have "(x a * lag S x i - x i * lag S x i) * x i ^ k = x a * lag (S - {a}) x i * x i ^ k"
      by simp
    with False show ?thesis by (simp add: algebra_simps)
  qed simp
  then have "(\<Sum>i\<in>S. lag S x i * x i ^ Suc k) =
      (\<Sum>i\<in>S. x a * (lag S x i * x i ^ k) -
              x a * (if i = a then 0 else lag (S - {a}) x i * x i ^ k))"
    by (rule sum.cong [OF refl])
  then show ?thesis
    by (simp only: sum_subtractf sum_distrib_left [symmetric] sum_without [OF assms(1)]
        right_diff_distrib)
qed

lemma lag_power:
  fixes x :: "'i \<Rightarrow> 's :: field"
  assumes "finite S" "inj_on x S" "k < card S"
  shows "(\<Sum>i\<in>S. lag S x i * x i ^ k) = (if k = 0 then 1 else 0)"
  using assms
proof (induction k arbitrary: S)
  case 0
  then have "S \<noteq> {}" by auto
  with 0 show ?case using lag_sum_one [of S x] by simp
next
  case (Suc k)
  then obtain a where a: "a \<in> S" by fastforce
  have "inj_on x (S - {a})" "k < card (S - {a})" "k < card S"
    using Suc.prems a by (auto intro: inj_on_diff)
  with Suc a show ?case
    using lag_power_step [of S a x k] by simp
qed

lemma interpolate_at_zero:
  fixes x :: "'i \<Rightarrow> 's :: field"
  assumes "finite S" "inj_on x S" "length cs \<le> card S" "cs \<noteq> []"
  shows "(\<Sum>i\<in>S. lag S x i * poly_at cs (x i)) = hd cs"
proof -
  have "(\<Sum>i\<in>S. lag S x i * poly_at cs (x i)) =
      (\<Sum>k<length cs. cs ! k * (\<Sum>i\<in>S. lag S x i * x i ^ k))"
    unfolding poly_at_def sum_distrib_left
    by (subst sum.swap) (simp add: mult.left_commute)
  also have "\<dots> = (\<Sum>k<length cs. cs ! k * (if k = 0 then 1 else 0))"
    using assms by (intro sum.cong) (simp_all add: lag_power)
  also have "\<dots> = hd cs"
    using assms(4) by (simp add: if_distrib sum.If_cases hd_conv_nth cong: if_cong)
  finally show ?thesis .
qed

end
