(* ===== verification/Protocol_Utils.thy ===== *)
theory Protocol_Utils
  imports Ciphersuite_Trait Interpolation
begin

text \<open>
  src/src/utils.rs: Lagrange coefficients at zero, the sign of the pairwise blinding, the
  domain-separated hashes, and Pedersen commitments. The main facts: \<open>lagrange\<close> never
  reaches the \<open>unwrap\<close> of a missing inverse and computes the interpolation coefficient;
  the shared hash prefix is the one-shot hash.
\<close>

section \<open>The functions\<close>

fun lagrange_loop ::
  "Identifier \<Rightarrow> Identifier list \<Rightarrow> 's :: field \<Rightarrow> 's \<Rightarrow> 's \<times> 's" where
  "lagrange_loop i [] num den = (num, den)"
| "lagrange_loop i (j # js) num den =
     (if j = i then lagrange_loop i js num den
      else lagrange_loop i js (num * scalar_from j) (den * (scalar_from j - scalar_from i)))"

definition lagrange :: "Identifier \<Rightarrow> Identifier list \<Rightarrow> 's :: field option" where
  "lagrange i signer_set =
     (let (num, den) = lagrange_loop i signer_set 1 1
      in map_option (\<lambda>inv. num * inv) (invert den))"

definition delta :: "Identifier \<Rightarrow> Identifier \<Rightarrow> 's :: field" where
  "delta i j = (if i > j then 1 else - 1)"

definition binding_factor ::
  "('s, 'p, 'h) ciphersuite \<Rightarrow> 'p \<Rightarrow> bytes \<Rightarrow> bytes \<Rightarrow> bytes \<Rightarrow> 's" where
  "binding_factor C verifying_key signer_set_bytes msg commitments_bytes =
     hash_to_scalar C
       [ascii (CONTEXT C), ascii ''/Hnon'', point_bytes C verifying_key,
        signer_set_bytes, msg, commitments_bytes]"

definition blinding_base :: "('s, 'p, 'h) ciphersuite \<Rightarrow> bytes \<Rightarrow> bytes \<Rightarrow> bytes \<Rightarrow> 'h" where
  "blinding_base C commitments_bytes msg signer_set_bytes =
     (let base = hasher_new C;
          base = hasher_update C base (ascii (CONTEXT C));
          base = hasher_update C base (ascii ''/Hs'');
          base = hasher_update C base commitments_bytes;
          base = hasher_update C base msg;
          base = hasher_update C base signer_set_bytes
      in base)"

definition blinding_randomizer :: "('s, 'p, 'h) ciphersuite \<Rightarrow> bytes \<Rightarrow> bytes \<Rightarrow> 's" where
  "blinding_randomizer C k_ij view_bytes =
     hash_to_scalar C [ascii (CONTEXT C), ascii ''/HIA'', k_ij, view_bytes]"

definition encode_signer_set :: "Identifier list \<Rightarrow> bytes" where
  "encode_signer_set ids = foldl (\<lambda>out id. out @ to_be_bytes id) [] ids"

definition pedersen_commit ::
  "('s, 'p :: plus, 'h) ciphersuite \<Rightarrow> 's \<Rightarrow> 's \<Rightarrow> 'p \<Rightarrow> 'p" where
  "pedersen_commit C val blinding h = mul_generator C val + point_mul C h blinding"

definition hash_pairwise_key_commitment :: "('s, 'p, 'h) ciphersuite \<Rightarrow> bytes \<Rightarrow> bytes" where
  "hash_pairwise_key_commitment C k_ij = hash_commitment C [ascii (CONTEXT C), ascii ''/Hvk'', k_ij]"

section \<open>Lagrange coefficients\<close>

lemma lagrange_loop_prod:
  assumes "distinct js"
  shows "lagrange_loop i js num den =
    (num * (\<Prod>j\<in>set js - {i}. scalar_from j),
     den * (\<Prod>j\<in>set js - {i}. scalar_from j - scalar_from i))"
  using assms
proof (induction js arbitrary: num den)
  case (Cons k ks)
  show ?case
  proof (cases "k = i")
    case True
    then have "set (k # ks) - {i} = set ks - {i}" by auto
    with True Cons show ?thesis by simp
  next
    case False
    then have "set (k # ks) - {i} = insert k (set ks - {i})" by auto
    with False Cons show ?thesis by (simp add: mult.assoc)
  qed
qed simp

context suite_contract
begin

lemma lagrange_total:
  assumes "distinct ids"
  shows "lagrange i ids = Some (lag (set ids) (scalar_from :: Identifier \<Rightarrow> 's) i)"
proof -
  have "(\<Prod>j\<in>set ids - {i}. scalar_from j - (scalar_from i :: 's)) \<noteq> 0"
    by (auto simp: scalar_from_inj)
  moreover have "lag (set ids) (scalar_from :: Identifier \<Rightarrow> 's) i =
      (\<Prod>j\<in>set ids - {i}. scalar_from j) / (\<Prod>j\<in>set ids - {i}. scalar_from j - scalar_from i)"
    by (simp add: lag_def prod_dividef)
  ultimately show ?thesis
    using assms by (simp add: lagrange_def lagrange_loop_prod invert_def divide_inverse)
qed

lemma inj_scalar_from: "inj_on (scalar_from :: Identifier \<Rightarrow> 's) S"
  by (rule inj_onI) (simp add: scalar_from_inj)

lemma lagrange_recovers:
  assumes "distinct ids" "length cs \<le> length ids" "cs \<noteq> []"
    and "\<And>i. i \<in> set ids \<Longrightarrow> f i = poly_at cs (scalar_from i :: 's)"
  shows "sum_list (map (\<lambda>i. lag (set ids) scalar_from i * f i) ids) = hd cs"
proof -
  have "sum_list (map (\<lambda>i. lag (set ids) scalar_from i * f i) ids) =
      (\<Sum>i\<in>set ids. lag (set ids) scalar_from i * poly_at cs (scalar_from i))"
    using assms by (simp add: sum_list_distinct_conv_sum_set)
  also have "\<dots> = hd cs"
    using assms by (intro interpolate_at_zero inj_scalar_from) (simp_all add: distinct_card)
  finally show ?thesis .
qed

lemma pedersen_commit_eq:
  "pedersen_commit C v w h = point_mul C (generator C) v + point_mul C h w"
  by (simp add: pedersen_commit_def mul_generator_eq)

end

section \<open>The sign of the blinding\<close>

lemma delta_antisym: "i \<noteq> j \<Longrightarrow> delta j i = - (delta i j :: 's :: field)"
  by (auto simp: delta_def)

text \<open>
  Values shared by the two ends of every pair cancel when one end adds and the other
  subtracts them.
\<close>

lemma pairwise_cancel:
  fixes B :: "Identifier \<Rightarrow> Identifier \<Rightarrow> 's :: field"
  assumes "finite S" and "\<And>i j. i \<in> S \<Longrightarrow> j \<in> S \<Longrightarrow> i \<noteq> j \<Longrightarrow> B i j = B j i"
  shows "(\<Sum>i\<in>S. \<Sum>j\<in>S - {i}. delta i j * B i j) = 0"
  using assms
proof (induction S rule: finite_induct)
  case (insert a S)
  have other: "(\<Sum>j\<in>insert a S - {i}. delta i j * B i j) =
      delta i a * B i a + (\<Sum>j\<in>S - {i}. delta i j * B i j)" if "i \<in> S" for i
  proof -
    have "insert a S - {i} = insert a (S - {i})" using that insert.hyps by auto
    then show ?thesis using insert.hyps by simp
  qed
  have "(\<Sum>i\<in>insert a S. \<Sum>j\<in>insert a S - {i}. delta i j * B i j) =
      (\<Sum>j\<in>S. delta a j * B a j) + (\<Sum>i\<in>S. delta i a * B i a)
      + (\<Sum>i\<in>S. \<Sum>j\<in>S - {i}. delta i j * B i j)"
    using insert.hyps by (simp add: other sum.distrib)
  moreover have "(\<Sum>i\<in>S. delta i a * B i a) = - (\<Sum>j\<in>S. delta a j * B a j)"
    unfolding sum_negf [symmetric]
  proof (rule sum.cong [OF refl])
    fix i assume "i \<in> S"
    then have "i \<noteq> a" using insert.hyps by auto
    then have "delta a i = - (delta i a :: 's)" by (rule delta_antisym)
    moreover have "B i a = B a i"
      using insert.prems [of i a] \<open>i \<in> S\<close> \<open>i \<noteq> a\<close> by simp
    ultimately show "delta i a * B i a = - (delta a i * B a i)" by simp
  qed
  ultimately show ?case
    using insert.IH insert.prems by simp
qed simp

section \<open>Hash inputs\<close>

lemma encode_signer_set_concat: "encode_signer_set ids = concat (map to_be_bytes ids)"
  by (simp add: encode_signer_set_def foldl_append_map)

lemma length_encode_signer_set: "length (encode_signer_set ids) = 2 * length ids"
  by (induction ids) (simp_all add: encode_signer_set_concat)

lemma blinding_base_one_shot:
  "finish_with C (blinding_base C cb msg sb) k =
     hash_to_scalar C [ascii (CONTEXT C), ascii ''/Hs'', cb, msg, sb, k]"
  by (simp add: finish_with_def blinding_base_def hash_to_scalar_def Let_def)

end
