(* ===== verification/Protocol_Error.thy ===== *)
theory Protocol_Error
  imports Prelude
begin

text \<open>
  src/src/error.rs: the error type of the functions that read data of other parties, and
  its \<open>Display\<close> implementation.
\<close>

datatype error =
    UnknownSigner Identifier
  | NonceCommitmentMismatch Identifier
  | InconsistentAggregateNonce
  | ShareCountMismatch nat nat
  | NoSignatureShares
  | MissingIa1Message Identifier
  | MissingBlindingCommitment Identifier Identifier
  | MissingPairwiseKey Identifier
  | MalformedEncoding

type_synonym 'a result = "(error, 'a) outcome"

text \<open>Decimal formatting of an unsigned integer, \<open>{id}\<close> and \<open>{expected}\<close>.\<close>

fun show_nat :: "nat \<Rightarrow> string" where
  "show_nat n =
     (if n < 10 then [char_of (n + 48)] else show_nat (n div 10) @ [char_of (n mod 10 + 48)])"

declare show_nat.simps [simp del]

definition show_id :: "Identifier \<Rightarrow> string" where
  "show_id i = show_nat (unat i)"

fun error_display :: "error \<Rightarrow> string" where
  "error_display (UnknownSigner i) =
     ''signer '' @ show_id i @ '' is not part of the signing package''"
| "error_display (NonceCommitmentMismatch i) =
     ''published nonce commitment for signer '' @ show_id i @ '' does not match its nonce''"
| "error_display InconsistentAggregateNonce =
     ''signature shares disagree on the aggregate nonce R''"
| "error_display (ShareCountMismatch expected got) =
     ''expected '' @ show_nat expected @ '' signature shares, got '' @ show_nat got"
| "error_display NoSignatureShares = ''no signature shares were supplied''"
| "error_display (MissingIa1Message i) =
     ''missing IA round-1 message from signer '' @ show_id i"
| "error_display (MissingBlindingCommitment frm about) =
     ''signer '' @ show_id frm @ '' did not commit to a blinding value for peer '' @ show_id about"
| "error_display (MissingPairwiseKey i) =
     ''no pairwise key for peer '' @ show_id i @ '' in the key package''"
| "error_display MalformedEncoding =
     ''message has the wrong length or a non-canonical encoding''"

end
