(* ===== verification/Signing_Messages.thy ===== *)
theory Signing_Messages
  imports Protocol_Utils Protocol_Error
begin

text \<open>The types of src/src/keygen.rs and src/src/sign.rs that the other modules exchange.\<close>

section \<open>keygen.rs\<close>

record 's KeyPackage =
  key_identifier :: Identifier
  signing_share :: 's
  signing_share_blinding :: 's
  pairwise_keys :: "(Identifier, bytes) btree_map"

record 'p PartialVerificationKey =
  signing_share_commitment :: 'p
  pairwise_key_commitments :: "(Identifier, bytes) btree_map"

record 'p PublicKeyPackage =
  verifying_key :: 'p
  max_signers :: Identifier
  min_signers :: Identifier
  pedersen_h :: 'p
  partial_verification_keys :: "(Identifier, 'p PartialVerificationKey) btree_map"

type_synonym 's KeyShares = "(Identifier, 's KeyPackage) btree_map"

section \<open>sign.rs\<close>

record 's SigningNonces =
  nonce_d :: 's
  nonce_e :: 's

record 'p SigningCommitments =
  comm_D :: 'p
  comm_E :: 'p

record 'p SigningPackage =
  message :: bytes
  signing_commitments :: "(Identifier, 'p SigningCommitments) btree_map"
  pkg_partial_verification_keys :: "(Identifier, 'p PartialVerificationKey) btree_map"

record ('s, 'p) SignatureShare =
  share_identifier :: Identifier
  share_R :: 'p
  share_z :: 's

record ('s, 'p) Signature =
  sig_R :: 'p
  sig_z :: 's

end
