(* ===== verification/Sample_Field.thy ===== *)
theory Sample_Field
  imports Prelude
begin

text \<open>
  A prime field with executable operations: the integers modulo 65537, the least prime
  field in which all 16-bit identifiers differ. It is what the parameters of the model
  are instantiated with to evaluate the definitions on concrete inputs.
\<close>

definition gf_order :: int where
  "gf_order = 65537"

typedef gf = "{0 ..< gf_order}"
  morphisms gf_rep Gf
  by (rule exI [of _ 0]) (simp add: gf_order_def)

setup_lifting type_definition_gf

lemma gf_rep_range: "0 \<le> gf_rep x \<and> gf_rep x < gf_order"
  using gf_rep [of x] by simp

lemma gf_order_trial: "list_all (\<lambda>d. (65537 :: nat) mod d \<noteq> 0) [2 ..< 257]"
  by simp

lemma gf_order_factor:
  assumes "d dvd 65537" "0 < d" "d \<le> (256 :: nat)"
  shows "d = 1"
proof (rule ccontr)
  assume "d \<noteq> 1"
  with assms have "d \<in> set [2 ..< 257]"
    unfolding set_upt atLeastLessThan_iff by linarith
  with gf_order_trial have "(65537 :: nat) mod d \<noteq> 0" unfolding list_all_iff by blast
  with assms(1) show False by (simp only: dvd_eq_mod_eq_0)
qed

lemma gf_order_prime:
  assumes "d dvd 65537" "d < (65537 :: nat)"
  shows "d = 1"
proof -
  obtain k where k: "65537 = d * k" using assms(1) unfolding dvd_def by blast
  have pos: "0 < d" "0 < k" using k by (auto intro!: Nat.gr0I)
  show ?thesis
  proof (cases "d \<le> 256")
    case True
    then show ?thesis using gf_order_factor assms(1) pos by blast
  next
    case False
    have "k \<le> 256"
    proof (rule ccontr)
      assume "\<not> k \<le> 256"
      with False have "257 * 257 \<le> d * k" by (intro mult_le_mono) auto
      with k show False by simp
    qed
    then have "k = 1" using gf_order_factor [of k] k pos by (metis dvd_triv_right)
    with k assms(2) show ?thesis by simp
  qed
qed

text \<open>The first Bezout coefficient, by the extended Euclidean algorithm.\<close>

definition bezout_fst :: "nat \<Rightarrow> nat \<Rightarrow> int" where
  "bezout_fst a b = fst (bezw a b)"

lemma bezout_fst_inverse:
  assumes "gcd a b = 1"
  shows "(int a * bezout_fst a b) mod int b = 1 mod int b"
proof -
  have "bezout_fst a b * int a + snd (bezw a b) * int b = 1"
    using bezw_aux [of a b] assms by (simp only: bezout_fst_def)
  then have "(int a * bezout_fst a b + snd (bezw a b) * int b) mod int b = 1 mod int b"
    by (simp only: mult.commute)
  then show ?thesis by (simp only: mod_mult_self1)
qed

definition gf_inv :: "int \<Rightarrow> int" where
  "gf_inv a = bezout_fst (nat a) 65537 mod gf_order"

lemma gf_inv_right:
  assumes "0 < a" "a < gf_order"
  shows "a * gf_inv a mod gf_order = 1"
proof -
  have "gcd (nat a) 65537 dvd (65537 :: nat)" by simp
  moreover have "gcd (nat a) 65537 < (65537 :: nat)"
  proof (rule le_less_trans)
    show "gcd (nat a) 65537 \<le> nat a" using assms by (intro gcd_le1_nat) simp
    show "nat a < 65537" using assms by (simp add: gf_order_def)
  qed
  ultimately have "gcd (nat a) (65537 :: nat) = 1" by (rule gf_order_prime)
  from bezout_fst_inverse [OF this] show ?thesis
    using assms by (simp add: gf_inv_def mod_mult_right_eq gf_order_def)
qed

instantiation gf :: "{zero, one, plus, minus, uminus, times, inverse}"
begin

lift_definition zero_gf :: gf is 0 by (simp add: gf_order_def)
lift_definition one_gf :: gf is 1 by (simp add: gf_order_def)
lift_definition plus_gf :: "gf \<Rightarrow> gf \<Rightarrow> gf" is "\<lambda>a b. (a + b) mod gf_order"
  by (simp add: gf_order_def)
lift_definition minus_gf :: "gf \<Rightarrow> gf \<Rightarrow> gf" is "\<lambda>a b. (a - b) mod gf_order"
  by (simp add: gf_order_def)
lift_definition uminus_gf :: "gf \<Rightarrow> gf" is "\<lambda>a. (- a) mod gf_order"
  by (simp add: gf_order_def)
lift_definition times_gf :: "gf \<Rightarrow> gf \<Rightarrow> gf" is "\<lambda>a b. (a * b) mod gf_order"
  by (simp add: gf_order_def)
lift_definition inverse_gf :: "gf \<Rightarrow> gf" is "\<lambda>a. if a = 0 then 0 else gf_inv a"
  by (simp add: gf_order_def gf_inv_def)

definition divide_gf :: "gf \<Rightarrow> gf \<Rightarrow> gf" where
  "divide_gf a b = a * inverse b"

instance ..

end

instance gf :: field
proof
  fix a b c :: gf
  show "a + b + c = a + (b + c)" by transfer (simp add: mod_simps add.assoc)
  show "a + b = b + a" by transfer (simp add: add.commute)
  show "0 + a = a" by transfer simp
  show "- a + a = 0" by transfer (simp add: mod_simps)
  show "a - b = a + - b" by transfer (simp add: mod_simps)
  show "a * b * c = a * (b * c)" by transfer (simp add: mod_simps mult.assoc)
  show "a * b = b * a" by transfer (simp add: mult.commute)
  show "1 * a = a" by transfer simp
  show "(a + b) * c = a * c + b * c" by transfer (simp add: mod_simps distrib_right)
  show "(0 :: gf) \<noteq> 1" by transfer simp
  show "inverse (0 :: gf) = 0" by transfer simp
  show "a \<noteq> 0 \<Longrightarrow> inverse a * a = 1"
    by transfer (use gf_inv_right in \<open>auto simp: mult.commute\<close>)
  show "a / b = a * inverse b" by (rule divide_gf_def)
qed

lemma gf_eq_iff: "x = y \<longleftrightarrow> gf_rep x = gf_rep y"
  by (simp add: gf_rep_inject)

lemma gf_rep_of_nat: "gf_rep (of_nat n) = int n mod gf_order"
  by (induction n) (simp_all add: zero_gf.rep_eq plus_gf.rep_eq one_gf.rep_eq mod_simps ac_simps)

lemma gf_rep_of_int: "gf_rep (of_int k) = k mod gf_order"
proof (cases k rule: int_cases2)
  case (nonneg n)
  then show ?thesis by (simp add: gf_rep_of_nat)
next
  case (nonpos n)
  then show ?thesis by (simp add: gf_rep_of_nat uminus_gf.rep_eq mod_simps)
qed

lemma gf_rep_numeral: "gf_rep (numeral k) = numeral k mod gf_order"
  using gf_rep_of_nat [of "numeral k"] by simp

lemmas gf_calc = gf_eq_iff zero_gf.rep_eq one_gf.rep_eq plus_gf.rep_eq minus_gf.rep_eq
  uminus_gf.rep_eq times_gf.rep_eq gf_rep_of_nat gf_rep_of_int gf_rep_numeral gf_order_def

lemma gf_small_integers: "inj_on (of_nat :: nat \<Rightarrow> gf) {..< 2 ^ 16}"
  by (rule inj_onI) (simp add: gf_calc)

instantiation gf :: equal
begin

definition equal_gf :: "gf \<Rightarrow> gf \<Rightarrow> bool" where
  "equal_gf x y \<longleftrightarrow> gf_rep x = gf_rep y"

instance
  by standard (simp add: equal_gf_def gf_eq_iff)

end

end
