(* ===== verification/Secp256k1_Suite.thy ===== *)
theory Secp256k1_Suite
  imports Ciphersuite_Trait
begin

text \<open>
  src/src/ciphersuite/secp256k1.rs and the primitives of src/src/ciphersuite/bip340.rs
  that its trait methods call. The crates k256 and sha2 are the record \<open>k256_lib\<close>, a
  parameter; \<open>k256_contract\<close> names the documented behaviour relied on (prime order,
  the SEC1 encoding, streaming SHA-256). From it follow the contracts of both
  ciphersuites.
\<close>

section \<open>The k256 and sha2 crates\<close>

record ('s, 'p, 'd) k256_lib = "('s, 'p) curve_lib" +
  sha256_new :: 'd
  sha256_update :: "'d \<Rightarrow> bytes \<Rightarrow> 'd"
  sha256_finalize :: "'d \<Rightarrow> bytes"
  sha256_digest :: "bytes \<Rightarrow> bytes"
  scalar_reduce :: "bytes \<Rightarrow> 's"
  to_sec1_point :: "bool \<Rightarrow> 'p \<Rightarrow> bytes"
  from_sec1_point :: "bytes \<Rightarrow> 'p option"
  hash_from_bytes :: "bytes list \<Rightarrow> bytes list \<Rightarrow> 'p option"

section \<open>bip340.rs: primitives\<close>

text \<open>A SEC1 encoding has at least its tag byte, so \<open>as_bytes()[0]\<close> cannot panic.\<close>

definition has_odd_y :: "('s, 'p, 'd) k256_lib \<Rightarrow> 'p \<Rightarrow> bool" where
  "has_odd_y K p = (case to_sec1_point K True p of tag # _ \<Rightarrow> tag = 3 | [] \<Rightarrow> False)"

text \<open>
  The slice \<open>[1..33]\<close> panics when the encoding is shorter: the encoding of the
  identity is the single byte 0.
\<close>

definition x_only_bytes :: "('s, 'p, 'd) k256_lib \<Rightarrow> 'p \<Rightarrow> bytes option" where
  "x_only_bytes K p =
     (let enc = to_sec1_point K False p
      in if length enc < 33 then None else Some (take 32 (drop 1 enc)))"

definition tagged_hash :: "('s, 'p, 'd) k256_lib \<Rightarrow> bytes \<Rightarrow> bytes \<Rightarrow> bytes" where
  "tagged_hash K tag data =
     (let tag_hash = sha256_digest K tag;
          h = sha256_new K;
          h = sha256_update K h tag_hash;
          h = sha256_update K h tag_hash;
          h = sha256_update K h data
      in sha256_finalize K h)"

definition bip340_challenge_scalar ::
  "('s, 'p, 'd) k256_lib \<Rightarrow> bytes \<Rightarrow> bytes \<Rightarrow> bytes \<Rightarrow> 's" where
  "bip340_challenge_scalar K r_x p_x msg =
     scalar_reduce K (tagged_hash K (ascii ''BIP0340/challenge'') (r_x @ p_x @ msg))"

definition lift_x :: "('s, 'p, 'd) k256_lib \<Rightarrow> bytes \<Rightarrow> 'p option" where
  "lift_x K x_bytes = from_sec1_point K (2 # x_bytes)"

section \<open>secp256k1.rs\<close>

definition sha256_scalar_finish :: "('s, 'p, 'd) k256_lib \<Rightarrow> 'd \<Rightarrow> 's" where
  "sha256_scalar_finish K h = scalar_reduce K (sha256_finalize K h)"

definition secp_pedersen_generator :: "('s, 'p :: zero, 'd) k256_lib \<Rightarrow> 'p option" where
  "secp_pedersen_generator K =
     (case hash_from_bytes K [ascii ''FaFROST/secp256k1/SHA256/PedersenH'']
                             [ascii ''FaFROST/secp256k1/SHA256''] of
        None \<Rightarrow> None
      | Some h \<Rightarrow> if h = 0 then None else Some h)"

definition secp_hash_commitment :: "('s, 'p, 'd) k256_lib \<Rightarrow> bytes list \<Rightarrow> bytes" where
  "secp_hash_commitment K parts = sha256_finalize K (foldl (sha256_update K) (sha256_new K) parts)"

definition plain_challenge :: "('s, 'p, 'd) k256_lib \<Rightarrow> 'p \<Rightarrow> 'p \<Rightarrow> bytes \<Rightarrow> 's option" where
  "plain_challenge K vk r msg =
     Some (sha256_scalar_finish K (foldl (sha256_update K) (sha256_new K)
       [ascii ''FaFROST/secp256k1/SHA256'', ascii ''/Hsig'',
        point_to_repr K vk, point_to_repr K r, msg]))"

definition secp256k1_plain ::
  "('s, 'p :: ab_group_add, 'd) k256_lib \<Rightarrow> ('s, 'p, 'd) ciphersuite" where
  "secp256k1_plain K =
     \<lparr> generator = generator K, point_mul = point_mul K,
       point_to_repr = point_to_repr K, point_of_repr = point_of_repr K,
       point_repr_len = point_repr_len K,
       scalar_to_repr = scalar_to_repr K, scalar_of_repr = scalar_of_repr K,
       scalar_repr_len = scalar_repr_len K, from_uniform_bytes = from_uniform_bytes K,
       CONTEXT = ''FaFROST/secp256k1/SHA256'',
       SCHEME_ID = ''FaFROST-secp256k1-plain'',
       hasher_new = sha256_new K, hasher_update = sha256_update K,
       hasher_finish = sha256_scalar_finish K,
       hash_commitment = secp_hash_commitment K,
       mul_generator = default_mul_generator K,
       pedersen_generator = secp_pedersen_generator K,
       challenge = plain_challenge K,
       normalize_keygen = default_normalize_keygen,
       normalize_share_r = default_normalize_share_r,
       accept_r = default_accept_r \<rparr>"

definition bip340_challenge :: "('s, 'p, 'd) k256_lib \<Rightarrow> 'p \<Rightarrow> 'p \<Rightarrow> bytes \<Rightarrow> 's option" where
  "bip340_challenge K vk r msg =
     Option.bind (x_only_bytes K r) (\<lambda>r_x.
     Option.bind (x_only_bytes K vk) (\<lambda>p_x.
       Some (bip340_challenge_scalar K r_x p_x msg)))"

definition bip340_normalize_keygen ::
  "('s :: uminus, 'p :: uminus, 'd) k256_lib \<Rightarrow> 's \<Rightarrow> 'p \<Rightarrow> 's \<times> 'p" where
  "bip340_normalize_keygen K sk vk = (if has_odd_y K vk then (- sk, - vk) else (sk, vk))"

definition bip340_normalize_share_r ::
  "('s :: uminus, 'p :: uminus, 'd) k256_lib \<Rightarrow> 'p \<Rightarrow> 's \<Rightarrow> 'p \<times> 's" where
  "bip340_normalize_share_r K r nonce = (if has_odd_y K r then (- r, - nonce) else (r, nonce))"

definition bip340_accept_r :: "('s, 'p, 'd) k256_lib \<Rightarrow> 'p \<Rightarrow> bool" where
  "bip340_accept_r K r = (\<not> has_odd_y K r)"

definition secp256k1_bip340 ::
  "('s :: uminus, 'p :: ab_group_add, 'd) k256_lib \<Rightarrow> ('s, 'p, 'd) ciphersuite" where
  "secp256k1_bip340 K =
     \<lparr> generator = generator K, point_mul = point_mul K,
       point_to_repr = point_to_repr K, point_of_repr = point_of_repr K,
       point_repr_len = point_repr_len K,
       scalar_to_repr = scalar_to_repr K, scalar_of_repr = scalar_of_repr K,
       scalar_repr_len = scalar_repr_len K, from_uniform_bytes = from_uniform_bytes K,
       CONTEXT = ''FaFROST/secp256k1/SHA256'',
       SCHEME_ID = ''FaFROST-secp256k1-bip340'',
       hasher_new = sha256_new K, hasher_update = sha256_update K,
       hasher_finish = sha256_scalar_finish K,
       hash_commitment = secp_hash_commitment K,
       mul_generator = default_mul_generator K,
       pedersen_generator = secp_pedersen_generator K,
       challenge = bip340_challenge K,
       normalize_keygen = bip340_normalize_keygen K,
       normalize_share_r = bip340_normalize_share_r K,
       accept_r = bip340_accept_r K \<rparr>"

lemma plain_challenge_hash_to_scalar:
  "challenge (secp256k1_plain K) vk r msg =
     Some (hash_to_scalar (secp256k1_plain K)
       [ascii (CONTEXT (secp256k1_plain K)), ascii ''/Hsig'',
        point_bytes (secp256k1_plain K) vk, point_bytes (secp256k1_plain K) r, msg])"
  by (simp add: secp256k1_plain_def plain_challenge_def hash_to_scalar_def point_bytes_def)

section \<open>The crates' documented behaviour, and what follows for the traits\<close>

locale k256_contract =
  prime_subgroup "point_mul K" "generator K"
  for K :: "('s :: field, 'p :: ab_group_add, 'd) k256_lib" +
  assumes cofactor_one: "\<exists>x. P = point_mul K (generator K) x"
    and scalars_wide: "inj_on (of_nat :: nat \<Rightarrow> 's) {..< 2 ^ 16}"
    and sec1_identity: "to_sec1_point K c 0 = [0]"
    and sec1_point:
      "P \<noteq> 0 \<Longrightarrow> \<exists>x y y'. length x = 32 \<and> length y = 32 \<and> length y' = 32 \<and>
         to_sec1_point K False P = 4 # x @ y \<and> to_sec1_point K False (- P) = 4 # x @ y' \<and>
         (to_sec1_point K True P = 2 # x \<and> to_sec1_point K True (- P) = 3 # x \<or>
          to_sec1_point K True P = 3 # x \<and> to_sec1_point K True (- P) = 2 # x)"
    and sec1_parse: "P \<noteq> 0 \<Longrightarrow> from_sec1_point K (to_sec1_point K True P) = Some P"
    and sec1_canonical:
      "from_sec1_point K (2 # x) = Some P \<Longrightarrow> length x = 32 \<Longrightarrow> to_sec1_point K True P = 2 # x"
    and sha256_streaming:
      "sha256_finalize K (foldl (sha256_update K) (sha256_new K) ps) = sha256_digest K (concat ps)"
begin

lemma odd_y_identity: "\<not> has_odd_y K 0"
  by (simp add: has_odd_y_def sec1_identity)

lemma odd_y_neg: "P \<noteq> 0 \<Longrightarrow> has_odd_y K (- P) \<longleftrightarrow> \<not> has_odd_y K P"
  using sec1_point [of P] by (auto simp: has_odd_y_def)

lemma even_y_neg: "has_odd_y K P \<Longrightarrow> \<not> has_odd_y K (- P)"
  using odd_y_neg odd_y_identity by (cases "P = 0") auto

lemma x_only_neg: "x_only_bytes K (- P) = x_only_bytes K P"
proof (cases "P = 0")
  case False
  then show ?thesis using sec1_point [OF False] by (auto simp: x_only_bytes_def Let_def)
qed simp

lemma x_only_None_iff: "x_only_bytes K P = None \<longleftrightarrow> P = 0"
proof (cases "P = 0")
  case False
  then show ?thesis using sec1_point [OF False] by (auto simp: x_only_bytes_def Let_def)
qed (simp add: x_only_bytes_def sec1_identity)

lemma tagged_hash_digest:
  "tagged_hash K tag data =
     sha256_digest K (sha256_digest K tag @ sha256_digest K tag @ data)"
  using sha256_streaming [of "[sha256_digest K tag, sha256_digest K tag, data]"]
  by (simp add: tagged_hash_def Let_def)

end

sublocale k256_contract \<subseteq>
  sha: scalar_hasher "sha256_new K" "sha256_update K" "sha256_scalar_finish K"
    "\<lambda>data. scalar_reduce K (sha256_digest K data)"
  by unfold_locales (simp add: sha256_scalar_finish_def sha256_streaming)

sublocale k256_contract \<subseteq> plain: suite_contract "secp256k1_plain K"
proof unfold_locales
  show "inj_on (of_nat :: nat \<Rightarrow> 's) {..< 2 ^ 16}" by (rule scalars_wide)
qed (use cofactor_one in \<open>simp_all add: secp256k1_plain_def gen_add gen_mul gen_one gen_faithful
    mul_points default_mul_generator_def default_normalize_keygen_def
    default_normalize_share_r_def default_accept_r_def share_sign_def\<close>)

sublocale k256_contract \<subseteq> bip: suite_contract "secp256k1_bip340 K"
proof unfold_locales
  show "inj_on (of_nat :: nat \<Rightarrow> 's) {..< 2 ^ 16}" by (rule scalars_wide)
  show "accept_r (secp256k1_bip340 K) (fst (normalize_share_r (secp256k1_bip340 K) r n))" for r n
    by (simp add: secp256k1_bip340_def bip340_accept_r_def bip340_normalize_share_r_def even_y_neg)
  show "normalize_keygen (secp256k1_bip340 K) sk' vk' = (sk', vk')"
    if "normalize_keygen (secp256k1_bip340 K) sk
      (point_mul (secp256k1_bip340 K) (generator (secp256k1_bip340 K)) sk) = (sk', vk')" for sk sk' vk'
    using that even_y_neg
    by (auto simp: secp256k1_bip340_def bip340_normalize_keygen_def split: if_splits)
qed (use cofactor_one in \<open>auto simp: secp256k1_bip340_def gen_add gen_mul gen_one gen_faithful
    mul_points default_mul_generator_def bip340_normalize_keygen_def
    bip340_normalize_share_r_def share_sign_def bip340_challenge_def x_only_neg gen_neg
    split: if_splits\<close>)

context k256_contract
begin

lemmas plain_suite = plain.suite_contract_axioms
lemmas bip340_suite = bip.suite_contract_axioms

end

end
