(* ===== verification/Ed25519_Suite.thy ===== *)
theory Ed25519_Suite
  imports Ciphersuite_Trait
begin

text \<open>
  src/src/ciphersuite/ed25519.rs. The crates curve25519-dalek and sha2 are the record
  \<open>dalek_lib\<close>. \<open>EdwardsPoint\<close> is the full curve group, of order 8 times the prime L, and
  the contract gives the module laws on the prime-order subgroup only.
\<close>

section \<open>The curve25519-dalek and sha2 crates\<close>

record ('s, 'p, 'd) dalek_lib = "('s, 'p) curve_lib" +
  sha512_new :: 'd
  sha512_update :: "'d \<Rightarrow> bytes \<Rightarrow> 'd"
  sha512_finalize :: "'d \<Rightarrow> bytes"
  mod_order_wide :: "bytes \<Rightarrow> 's"
  mul_base :: "'s \<Rightarrow> 'p"
  mul_by_cofactor :: "'p \<Rightarrow> 'p"
  compress :: "'p \<Rightarrow> bytes"
  decompress :: "bytes \<Rightarrow> 'p option"
  scalar_to_bytes :: "'s \<Rightarrow> bytes"
  scalar_from_canonical :: "bytes \<Rightarrow> 's option"

section \<open>The ciphersuite\<close>

definition sha512_scalar_finish :: "('s, 'p, 'd) dalek_lib \<Rightarrow> 'd \<Rightarrow> 's" where
  "sha512_scalar_finish L h = mod_order_wide L (sha512_finalize L h)"

text \<open>\<open>u32::to_le_bytes\<close>.\<close>

definition u32_to_le_bytes :: "32 word \<Rightarrow> bytes" where
  "u32_to_le_bytes w = [ucast w, ucast (drop_bit 8 w), ucast (drop_bit 16 w), ucast (drop_bit 24 w)]"

text \<open>One round of the try-and-increment loop.\<close>

definition pedersen_try :: "('s, 'p :: zero, 'd) dalek_lib \<Rightarrow> 32 word \<Rightarrow> 'p option" where
  "pedersen_try L ctr =
     (let h = sha512_new L;
          h = sha512_update L h (ascii ''FaFROST/ed25519/SHA512/PedersenH'');
          h = sha512_update L h (u32_to_le_bytes ctr);
          digest = sha512_finalize L h
      in case decompress L (take 32 digest) of
           Some p \<Rightarrow> (let hp = mul_by_cofactor L p in if hp = 0 then None else Some hp)
         | None \<Rightarrow> None)"

text \<open>
  \<open>for ctr in 0u32..\<close>: \<open>None\<close> when the loop finds nothing. After \<open>u32::MAX\<close> a build with
  overflow checks panics and one without starts over at 0, which fails again for ever;
  both are \<open>None\<close>.
\<close>

partial_function (option) pedersen_search ::
  "('s, 'p :: zero, 'd) dalek_lib \<Rightarrow> 32 word \<Rightarrow> 'p option" where
  "pedersen_search L ctr =
     (case pedersen_try L ctr of Some hp \<Rightarrow> Some hp | None \<Rightarrow> pedersen_search L (ctr + 1))"

definition ed25519_pedersen_generator :: "('s, 'p :: zero, 'd) dalek_lib \<Rightarrow> 'p option" where
  "ed25519_pedersen_generator L = pedersen_search L 0"

definition rfc8032_challenge ::
  "('s, 'p, 'd) dalek_lib \<Rightarrow> bytes \<Rightarrow> bytes \<Rightarrow> bytes \<Rightarrow> 's" where
  "rfc8032_challenge L r_enc a_enc msg =
     (let h = sha512_new L;
          h = sha512_update L h r_enc;
          h = sha512_update L h a_enc;
          h = sha512_update L h msg
      in mod_order_wide L (sha512_finalize L h))"

definition ed25519_hash_commitment :: "('s, 'p, 'd) dalek_lib \<Rightarrow> bytes list \<Rightarrow> bytes" where
  "ed25519_hash_commitment L parts =
     take 32 (sha512_finalize L (foldl (sha512_update L) (sha512_new L) parts))"

definition ed25519 :: "('s, 'p :: zero, 'd) dalek_lib \<Rightarrow> ('s, 'p, 'd) ciphersuite" where
  "ed25519 L =
     \<lparr> generator = generator L, point_mul = point_mul L,
       point_to_repr = point_to_repr L, point_of_repr = point_of_repr L,
       point_repr_len = point_repr_len L,
       scalar_to_repr = scalar_to_repr L, scalar_of_repr = scalar_of_repr L,
       scalar_repr_len = scalar_repr_len L, from_uniform_bytes = from_uniform_bytes L,
       CONTEXT = ''FaFROST/ed25519/SHA512'',
       SCHEME_ID = ''FaFROST-ed25519'',
       hasher_new = sha512_new L, hasher_update = sha512_update L,
       hasher_finish = sha512_scalar_finish L,
       hash_commitment = ed25519_hash_commitment L,
       mul_generator = mul_base L,
       pedersen_generator = ed25519_pedersen_generator L,
       challenge = (\<lambda>vk r msg. Some (rfc8032_challenge L (compress L r) (compress L vk) msg)),
       normalize_keygen = default_normalize_keygen,
       normalize_share_r = default_normalize_share_r,
       accept_r = default_accept_r \<rparr>"

section \<open>The try-and-increment loop\<close>

lemma pedersen_search_hit: "pedersen_try L ctr = Some hp \<Longrightarrow> pedersen_search L ctr = Some hp"
  by (subst pedersen_search.simps) simp

lemma pedersen_search_miss:
  "pedersen_try L ctr = None \<Longrightarrow> pedersen_search L ctr = pedersen_search L (ctr + 1)"
  by (subst pedersen_search.simps) simp

lemma pedersen_search_skip:
  assumes "\<And>m. m < n \<Longrightarrow> pedersen_try L (ctr + of_nat m) = None"
  shows "pedersen_search L ctr = pedersen_search L (ctr + of_nat n)"
  using assms
proof (induction n)
  case (Suc n)
  then have "pedersen_search L ctr = pedersen_search L (ctr + of_nat n)" by simp
  also have "\<dots> = pedersen_search L (ctr + of_nat n + 1)"
    using Suc.prems [of n] by (intro pedersen_search_miss) simp
  finally show ?case by (simp add: add.commute add.left_commute)
qed simp

text \<open>Whatever the loop returns is the result of one of its rounds.\<close>

lemma pedersen_search_found:
  fixes L :: "('s, 'p :: zero, 'd) dalek_lib"
  assumes "pedersen_search L ctr = Some hp"
  shows "\<exists>k. pedersen_try L k = Some hp"
proof (rule pedersen_search.raw_induct [where P = "\<lambda>L ctr r. \<exists>k. pedersen_try L k = Some r", OF _ assms])
  fix f and L :: "('s, 'p, 'd) dalek_lib" and ctr r
  assume IH: "\<And>(L :: ('s, 'p, 'd) dalek_lib) ctr r. f L ctr = Some r \<Longrightarrow> \<exists>k. pedersen_try L k = Some r"
    and eq: "(case pedersen_try L ctr of Some hp \<Rightarrow> Some hp | None \<Rightarrow> f L (ctr + 1)) = Some r"
  then show "\<exists>k. pedersen_try L k = Some r"
    by (auto split: option.splits)
qed

lemma pedersen_try_image:
  "pedersen_try L ctr = Some hp \<Longrightarrow> (\<exists>p. hp = mul_by_cofactor L p) \<and> hp \<noteq> 0"
  by (auto simp: pedersen_try_def Let_def split: option.splits if_splits)

section \<open>The crates' documented behaviour, and what follows for the trait\<close>

locale dalek_contract =
  prime_subgroup "point_mul L" "generator L"
  for L :: "('s :: field, 'p :: ab_group_add, 'd) dalek_lib" +
  assumes scalars_wide: "inj_on (of_nat :: nat \<Rightarrow> 's) {..< 2 ^ 16}"
    and mul_base_eq: "mul_base L k = point_mul L (generator L) k"
    and cofactor_clears: "\<exists>x. mul_by_cofactor L P = point_mul L (generator L) x"
    and compress_parse: "decompress L (compress L P) = Some P"
    and compress_length: "length (compress L P) = 32"
    and scalar_parse: "scalar_from_canonical L (scalar_to_bytes L k) = Some k"
    and scalar_length: "length (scalar_to_bytes L k) = 32"

sublocale dalek_contract \<subseteq> ed: suite_contract "ed25519 L"
proof unfold_locales
  show "inj_on (of_nat :: nat \<Rightarrow> 's) {..< 2 ^ 16}" by (rule scalars_wide)
  show "\<exists>x. h = point_mul (ed25519 L) (generator (ed25519 L)) x"
    if "pedersen_generator (ed25519 L) = Some h" for h
  proof -
    from that obtain k where "pedersen_try L k = Some h"
      using pedersen_search_found [of L 0 h]
      by (auto simp: ed25519_def ed25519_pedersen_generator_def)
    then show ?thesis
      using pedersen_try_image cofactor_clears by (fastforce simp: ed25519_def)
  qed
qed (simp_all add: ed25519_def gen_add gen_mul gen_one gen_faithful
    mul_points mul_base_eq default_normalize_keygen_def
    default_normalize_share_r_def default_accept_r_def share_sign_def)

context dalek_contract
begin

lemmas ed25519_suite = ed.suite_contract_axioms

end

end
