(* ===== verification/Sample_Suites.thy ===== *)
theory Sample_Suites
  imports Sample_Field Secp256k1_Suite Ed25519_Suite
begin

text \<open>
  The library parameters instantiated with concrete functions over \<open>gf\<close>: groups of
  prime order 65537 (for k256) and of order 8 times 65537 (for dalek, so that points
  outside the prime-order subgroup exist), byte encodings of fixed length, and a small
  streaming hash. The contracts of the two libraries hold for them, so the contracts of
  the three ciphersuites of the crate do, with nothing left to assume. The witnesses of
  the properties are evaluated here.
\<close>

section \<open>Encodings and hashes\<close>

definition gf_bytes :: "gf \<Rightarrow> bytes" where
  "gf_bytes x = [of_int (gf_rep x div 65536), of_int (gf_rep x div 256), of_int (gf_rep x)]"

definition gf_of_bytes :: "bytes \<Rightarrow> gf option" where
  "gf_of_bytes bs =
     (case bs of
        [a, b, c] \<Rightarrow> (let v = uint a * 65536 + uint b * 256 + uint c
                      in if v < gf_order then Some (of_int v) else None)
      | _ \<Rightarrow> None)"

definition pad32 :: "bytes \<Rightarrow> bytes" where
  "pad32 bs = bs @ replicate (32 - length bs) 0"

text \<open>A polynomial hash with 32 bytes of output.\<close>

definition mix :: "bytes \<Rightarrow> int" where
  "mix bs = foldl (\<lambda>acc b. (acc * 257 + uint b + 1) mod 65537) 1 bs"

definition sample_digest :: "bytes \<Rightarrow> bytes" where
  "sample_digest bs = pad32 (gf_bytes (of_int (mix bs)))"

definition sample_reduce :: "bytes \<Rightarrow> gf" where
  "sample_reduce bs = of_int (mix bs)"

lemma gf_rep_bytes:
  "uint (of_int (gf_rep x div 65536) :: byte) * 65536 + uint (of_int (gf_rep x div 256) :: byte) * 256
     + uint (of_int (gf_rep x) :: byte) = gf_rep x"
proof -
  define v where "v = gf_rep x"
  have v: "0 \<le> v" "v < 65537" using gf_rep_range [of x] by (auto simp: v_def gf_order_def)
  have "v mod 65536 = 256 * (v div 256 mod 256) + v mod 256"
    using zmod_zmult2_eq [of 256 v 256] by simp
  moreover have top: "v div 65536 mod 256 = v div 65536"
    using v by (intro mod_pos_pos_trivial) auto
  moreover have "v = v div 65536 * 65536 + v mod 65536" by simp
  ultimately have "v div 65536 * 65536 + v div 256 mod 256 * 256 + v mod 256 = v"
    by linarith
  with top show ?thesis by (simp add: v_def [symmetric] uint_word_of_int)
qed

lemma gf_of_bytes_bytes: "gf_of_bytes (gf_bytes x) = Some x"
  using gf_rep_range [of x]
  by (simp add: gf_of_bytes_def gf_bytes_def gf_rep_bytes Let_def gf_eq_iff gf_rep_of_int)

lemma gf_of_bytes_canonical: "gf_of_bytes bs = Some x \<Longrightarrow> gf_bytes x = bs"
proof -
  assume "gf_of_bytes bs = Some x"
  then obtain a b c where bs: "bs = [a, b, c]"
    and less: "uint a * 65536 + uint b * 256 + uint c < gf_order"
    and x: "x = of_int (uint a * 65536 + uint b * 256 + uint c)"
    by (auto simp: gf_of_bytes_def Let_def split: list.splits if_splits)
  define u where "u = uint a * 65536 + uint b * 256 + uint c"
  have bounds: "0 \<le> uint w" "uint w < 256" for w :: byte
    using unsigned_less [of w, where 'a = int] by simp_all
  have "0 \<le> u" "u < gf_order"
    using less bounds [of a] bounds [of b] bounds [of c] by (simp_all add: u_def)
  moreover have "gf_rep x = u mod gf_order"
    unfolding x u_def [symmetric] by (rule gf_rep_of_int)
  ultimately have rep: "gf_rep x = u" by simp
  have div2: "u div 65536 = uint a"
    by (rule int_div_pos_eq [where r = "uint b * 256 + uint c"])
      (use bounds [of b] bounds [of c] in \<open>simp_all add: u_def\<close>)
  have div1: "u div 256 = uint a * 256 + uint b"
    by (rule int_div_pos_eq [where r = "uint c"])
      (use bounds [of c] in \<open>simp_all add: u_def\<close>)
  have z: "(65536 :: byte) = 0" "(256 :: byte) = 0" by simp_all
  have "(of_int u :: byte) = c" "(of_int (uint a * 256 + uint b) :: byte) = b"
    by (simp_all add: u_def z)
  then show "gf_bytes x = bs"
    by (simp only: gf_bytes_def rep bs div1 div2) simp
qed

lemma length_gf_bytes: "length (gf_bytes x) = 3"
  by (simp add: gf_bytes_def)

subsection \<open>Scalars in 32 bytes\<close>

definition scalar32_bytes :: "gf \<Rightarrow> bytes" where
  "scalar32_bytes k = pad32 (gf_bytes k)"

definition scalar32_parse :: "bytes \<Rightarrow> gf option" where
  "scalar32_parse bs =
     (if length bs \<noteq> 32 \<or> drop 3 bs \<noteq> replicate 29 0 then None else gf_of_bytes (take 3 bs))"

lemma length_pad32: "length bs \<le> 32 \<Longrightarrow> length (pad32 bs) = 32"
  by (simp add: pad32_def)

lemma scalar32_parse_bytes: "scalar32_parse (scalar32_bytes k) = Some k"
  by (simp add: scalar32_parse_def scalar32_bytes_def pad32_def length_gf_bytes gf_of_bytes_bytes)

lemma length_scalar32: "length (scalar32_bytes k) = 32"
  by (simp add: scalar32_bytes_def length_pad32 length_gf_bytes)

lemma scalar32_canonical: "scalar32_parse bs = Some k \<Longrightarrow> scalar32_bytes k = bs"
proof -
  assume "scalar32_parse bs = Some k"
  then have bs: "length bs = 32" "drop 3 bs = replicate 29 0" "gf_bytes k = take 3 bs"
    by (auto simp: scalar32_parse_def gf_of_bytes_canonical split: if_splits)
  have "bs = take 3 bs @ drop 3 bs" by simp
  also have "\<dots> = scalar32_bytes k"
    using bs by (simp add: scalar32_bytes_def pad32_def length_gf_bytes)
  finally show ?thesis by simp
qed

section \<open>k256\<close>

definition odd_rep :: "gf \<Rightarrow> bool" where
  "odd_rep x = odd (gf_rep x)"

text \<open>The same x coordinate for a point and its negation: the even one of the two.\<close>

definition sample_x :: "gf \<Rightarrow> bytes" where
  "sample_x p = pad32 (gf_bytes (if odd_rep p then - p else p))"

definition sample_sec1 :: "bool \<Rightarrow> gf \<Rightarrow> bytes" where
  "sample_sec1 compressed p =
     (if p = 0 then [0]
      else if compressed then (if odd_rep p then 3 else 2) # sample_x p
      else 4 # sample_x p @ pad32 (gf_bytes p))"

definition sample_of_sec1 :: "bytes \<Rightarrow> gf option" where
  "sample_of_sec1 bs =
     (case bs of [] \<Rightarrow> None | tag # x \<Rightarrow>
       if length x \<noteq> 32 \<or> drop 3 x \<noteq> replicate 29 0 then None
       else (case gf_of_bytes (take 3 x) of None \<Rightarrow> None | Some p \<Rightarrow>
         if p = 0 \<or> odd_rep p \<or> x \<noteq> sample_x p then None
         else if tag = 2 then Some p else if tag = 3 then Some (- p) else None))"

definition sample_k256 :: "(gf, gf, bytes) k256_lib" where
  "sample_k256 =
     \<lparr> generator = 1, point_mul = (\<lambda>p k. p * k),
       point_to_repr = gf_bytes, point_of_repr = gf_of_bytes, point_repr_len = 3,
       scalar_to_repr = scalar32_bytes, scalar_of_repr = scalar32_parse, scalar_repr_len = 32,
       from_uniform_bytes = sample_reduce,
       sha256_new = [], sha256_update = (\<lambda>h d. h @ d), sha256_finalize = sample_digest,
       sha256_digest = sample_digest, scalar_reduce = sample_reduce,
       to_sec1_point = sample_sec1, from_sec1_point = sample_of_sec1,
       hash_from_bytes = (\<lambda>msg dst. Some 7) \<rparr>"

lemma odd_rep_neg: "p \<noteq> 0 \<Longrightarrow> odd_rep (- p) \<longleftrightarrow> \<not> odd_rep p"
proof -
  assume "p \<noteq> 0"
  then have "gf_rep p \<noteq> 0" by (simp add: gf_calc)
  then have "(- gf_rep p) mod 65537 = 65537 - gf_rep p"
    using gf_rep_range [of p] by (simp add: gf_order_def zmod_zminus1_eq_if)
  then show ?thesis
    by (simp add: odd_rep_def uminus_gf.rep_eq gf_order_def)
qed

lemma length_sample_x: "length (sample_x p) = 32"
  by (simp add: sample_x_def length_pad32 length_gf_bytes)

lemma sample_x_neg: "p \<noteq> 0 \<Longrightarrow> sample_x (- p) = sample_x p"
  by (simp add: sample_x_def odd_rep_neg)

lemma foldl_append_concat: "foldl (\<lambda>h d. h @ d) h ps = h @ concat ps"
  using foldl_append_map [of "\<lambda>d. d"] by simp

lemma sample_x_take: "take 3 (sample_x p) = gf_bytes (if odd_rep p then - p else p)"
  by (simp add: sample_x_def pad32_def length_gf_bytes)

lemma sample_x_drop: "drop 3 (sample_x p) = replicate 29 0"
  by (simp add: sample_x_def pad32_def length_gf_bytes)

lemma sample_sec1_parse:
  assumes "p \<noteq> 0"
  shows "sample_of_sec1 (sample_sec1 True p) = Some p"
proof -
  have "length (sample_x p) = 32" "gf_of_bytes (take 3 (sample_x p)) = Some (if odd_rep p then - p else p)"
    by (simp_all add: length_sample_x sample_x_take gf_of_bytes_bytes)
  then show ?thesis
    using assms odd_rep_neg [OF assms] sample_x_neg [OF assms]
    by (simp add: sample_of_sec1_def sample_sec1_def sample_x_drop)
qed

interpretation sample_k256: k256_contract sample_k256
proof unfold_locales
  show "inj_on (of_nat :: nat \<Rightarrow> gf) {..< 2 ^ 16}" by (rule gf_small_integers)
  show "from_sec1_point sample_k256 (to_sec1_point sample_k256 True p) = Some p"
    if "p \<noteq> 0" for p :: gf
    using sample_sec1_parse [OF that] by (simp add: sample_k256_def)
  show "to_sec1_point sample_k256 True p = 2 # x"
    if "from_sec1_point sample_k256 (2 # x) = Some p" for p x
    using that
    by (auto simp: sample_k256_def sample_of_sec1_def sample_sec1_def
        split: if_splits option.splits)
  show "\<exists>x y y'. length x = 32 \<and> length y = 32 \<and> length y' = 32 \<and>
      to_sec1_point sample_k256 False p = 4 # x @ y \<and>
      to_sec1_point sample_k256 False (- p) = 4 # x @ y' \<and>
      (to_sec1_point sample_k256 True p = 2 # x \<and> to_sec1_point sample_k256 True (- p) = 3 # x \<or>
       to_sec1_point sample_k256 True p = 3 # x \<and> to_sec1_point sample_k256 True (- p) = 2 # x)"
    if "p \<noteq> 0" for p :: gf
    using that odd_rep_neg [OF that]
    by (intro exI [of _ "sample_x p"] exI [of _ "pad32 (gf_bytes p)"]
        exI [of _ "pad32 (gf_bytes (- p))"])
      (auto simp: sample_k256_def sample_sec1_def sample_x_neg length_sample_x length_pad32
        length_gf_bytes)
qed (simp_all add: sample_k256_def algebra_simps sample_sec1_def foldl_append_concat)

section \<open>curve25519-dalek\<close>

text \<open>A multiple of the generator and a component of order dividing 8.\<close>

datatype ed_point = EdPoint (prime_part: gf) (torsion: "3 word")

instantiation ed_point :: ab_group_add
begin

definition zero_ed_point :: ed_point where
  "zero_ed_point = EdPoint 0 0"

definition plus_ed_point :: "ed_point \<Rightarrow> ed_point \<Rightarrow> ed_point" where
  "plus_ed_point P Q = EdPoint (prime_part P + prime_part Q) (torsion P + torsion Q)"

definition minus_ed_point :: "ed_point \<Rightarrow> ed_point \<Rightarrow> ed_point" where
  "minus_ed_point P Q = EdPoint (prime_part P - prime_part Q) (torsion P - torsion Q)"

definition uminus_ed_point :: "ed_point \<Rightarrow> ed_point" where
  "uminus_ed_point P = EdPoint (- prime_part P) (- torsion P)"

instance
  by standard (simp_all add: zero_ed_point_def plus_ed_point_def minus_ed_point_def
      uminus_ed_point_def add.assoc add.commute)

end

lemmas ed_point_defs = zero_ed_point_def plus_ed_point_def minus_ed_point_def uminus_ed_point_def

definition ed_mul :: "ed_point \<Rightarrow> gf \<Rightarrow> ed_point" where
  "ed_mul P k = EdPoint (prime_part P * k) (torsion P * of_int (gf_rep k))"

definition ed_compress :: "ed_point \<Rightarrow> bytes" where
  "ed_compress P = pad32 (gf_bytes (prime_part P) @ [ucast (torsion P)])"

definition ed_decompress :: "bytes \<Rightarrow> ed_point option" where
  "ed_decompress bs =
     (if length bs \<noteq> 32 \<or> drop 4 bs \<noteq> replicate 28 0 \<or> unat (bs ! 3) \<ge> 8 then None
      else map_option (\<lambda>a. EdPoint a (ucast (bs ! 3))) (gf_of_bytes (take 3 bs)))"

definition sample_dalek :: "(gf, ed_point, bytes) dalek_lib" where
  "sample_dalek =
     \<lparr> generator = EdPoint 1 0, point_mul = ed_mul,
       point_to_repr = ed_compress, point_of_repr = ed_decompress, point_repr_len = 32,
       scalar_to_repr = scalar32_bytes, scalar_of_repr = scalar32_parse, scalar_repr_len = 32,
       from_uniform_bytes = sample_reduce,
       sha512_new = [], sha512_update = (\<lambda>h d. h @ d), sha512_finalize = sample_digest,
       mod_order_wide = sample_reduce,
       mul_base = ed_mul (EdPoint 1 0), mul_by_cofactor = (\<lambda>P. EdPoint (8 * prime_part P) 0),
       compress = ed_compress, decompress = ed_decompress,
       scalar_to_bytes = scalar32_bytes, scalar_from_canonical = scalar32_parse \<rparr>"

lemma unat_torsion: "unat (ucast (t :: 3 word) :: byte) < 8"
proof -
  have "unsigned t < (2 ^ LENGTH(3) :: nat)" by (rule unsigned_less)
  then show ?thesis by (simp add: unsigned_ucast_eq take_bit_nat_eq_self)
qed

lemma ed_decompress_compress: "ed_decompress (ed_compress P) = Some P"
proof -
  have "ucast (ucast (torsion P) :: byte) = torsion P"
    by (rule bit_word_eqI) (auto simp: bit_simps)
  then show ?thesis
    using unat_torsion [of "torsion P"]
    by (simp add: ed_decompress_def ed_compress_def pad32_def length_gf_bytes nth_append
        gf_of_bytes_bytes not_le)
qed

interpretation sample_dalek: dalek_contract sample_dalek
proof unfold_locales
  show "inj_on (of_nat :: nat \<Rightarrow> gf) {..< 2 ^ 16}" by (rule gf_small_integers)
  show "\<exists>x. mul_by_cofactor sample_dalek P = point_mul sample_dalek (generator sample_dalek) x" for P
    by (rule exI [of _ "8 * prime_part P"]) (simp add: sample_dalek_def ed_mul_def)
  show "decompress sample_dalek (compress sample_dalek P) = Some P" for P
    by (simp add: sample_dalek_def ed_decompress_compress)
  show "scalar_from_canonical sample_dalek (scalar_to_bytes sample_dalek k) = Some k" for k
    by (simp add: sample_dalek_def scalar32_parse_bytes)
qed (simp_all add: sample_dalek_def ed_mul_def ed_point_defs algebra_simps length_pad32
    ed_compress_def scalar32_bytes_def length_gf_bytes)

section \<open>Randomness\<close>

text \<open>A counter: every draw is a different scalar and a different key.\<close>

definition sample_rng :: "(nat, gf) rng_lib" where
  "sample_rng =
     \<lparr> scalar_random = (\<lambda>n. (of_nat (n * n + 3 * n + 5), Suc n)),
       fill_bytes = (\<lambda>len n. (replicate len (of_nat (n + 1)), Suc n)) \<rparr>"

abbreviation sample_plain :: "(gf, gf, bytes) ciphersuite" where
  "sample_plain \<equiv> secp256k1_plain sample_k256"

abbreviation sample_bip340 :: "(gf, gf, bytes) ciphersuite" where
  "sample_bip340 \<equiv> secp256k1_bip340 sample_k256"

abbreviation sample_ed25519 :: "(gf, ed_point, bytes) ciphersuite" where
  "sample_ed25519 \<equiv> ed25519 sample_dalek"

lemma sample_plain_contract: "suite_contract sample_plain"
  by (rule sample_k256.plain.suite_contract_axioms)

lemma sample_bip340_contract: "suite_contract sample_bip340"
  by (rule sample_k256.bip.suite_contract_axioms)

lemma sample_ed25519_contract: "suite_contract sample_ed25519"
  by (rule sample_dalek.ed.suite_contract_axioms)

end
