(* ===== verification/Wire_Format.thy ===== *)
theory Wire_Format
  imports Signing_Messages Sample_Suites
begin

text \<open>
  src/src/wire.rs: the byte encodings of the wire messages. The interface of a parser
  and its serialiser is the locale \<open>codec\<close>; \<open>wire_contract\<close> names what the curve crate
  promises of its fixed-length encodings, and gives a codec for each message.
\<close>

section \<open>The functions\<close>

definition encode_commitments ::
  "('s, 'p, 'h) ciphersuite \<Rightarrow> (Identifier, 'p SigningCommitments) btree_map \<Rightarrow> bytes" where
  "encode_commitments C commitments =
     foldl (\<lambda>out (id, c). out @ to_be_bytes id @ point_bytes C (comm_D c) @ point_bytes C (comm_E c))
       [] (bt_entries commitments)"

definition point_len :: "('s, 'p, 'h) ciphersuite \<Rightarrow> nat" where
  "point_len C = point_repr_len C"

definition scalar_len :: "('s, 'p, 'h) ciphersuite \<Rightarrow> nat" where
  "scalar_len C = scalar_repr_len C"

definition scalar_bytes :: "('s, 'p, 'h) ciphersuite \<Rightarrow> 's \<Rightarrow> bytes" where
  "scalar_bytes C k = scalar_to_repr C k"

definition point_from_bytes :: "('s, 'p, 'h) ciphersuite \<Rightarrow> bytes \<Rightarrow> 'p option" where
  "point_from_bytes C bs = (if length bs \<noteq> point_repr_len C then None else point_of_repr C bs)"

definition scalar_from_bytes :: "('s, 'p, 'h) ciphersuite \<Rightarrow> bytes \<Rightarrow> 's option" where
  "scalar_from_bytes C bs = (if length bs \<noteq> scalar_repr_len C then None else scalar_of_repr C bs)"

definition SigningCommitments_to_bytes ::
  "('s, 'p, 'h) ciphersuite \<Rightarrow> 'p SigningCommitments \<Rightarrow> bytes" where
  "SigningCommitments_to_bytes C c = point_bytes C (comm_D c) @ point_bytes C (comm_E c)"

definition SigningCommitments_from_bytes ::
  "('s, 'p, 'h) ciphersuite \<Rightarrow> bytes \<Rightarrow> 'p SigningCommitments result" where
  "SigningCommitments_from_bytes C bs =
     (let plen = point_len C in
      if length bs \<noteq> 2 * plen then Err MalformedEncoding
      else
        and_then (ok_or (point_from_bytes C (take plen bs)) MalformedEncoding) (\<lambda>D.
        and_then (ok_or (point_from_bytes C (drop plen bs)) MalformedEncoding) (\<lambda>E.
          Ok \<lparr> comm_D = D, comm_E = E \<rparr>)))"

definition SignatureShare_to_bytes ::
  "('s, 'p, 'h) ciphersuite \<Rightarrow> ('s, 'p) SignatureShare \<Rightarrow> bytes" where
  "SignatureShare_to_bytes C sh =
     to_be_bytes (share_identifier sh) @ point_bytes C (share_R sh) @ scalar_bytes C (share_z sh)"

definition SignatureShare_from_bytes ::
  "('s, 'p, 'h) ciphersuite \<Rightarrow> bytes \<Rightarrow> ('s, 'p) SignatureShare result" where
  "SignatureShare_from_bytes C bs =
     (let plen = point_len C; slen = scalar_len C in
      if length bs \<noteq> 2 + plen + slen then Err MalformedEncoding
      else
        let ident = from_be_bytes (bs ! 0) (bs ! 1) in
        and_then (ok_or (point_from_bytes C (take plen (drop 2 bs))) MalformedEncoding) (\<lambda>R.
        and_then (ok_or (scalar_from_bytes C (drop (2 + plen) bs)) MalformedEncoding) (\<lambda>z.
          Ok \<lparr> share_identifier = ident, share_R = R, share_z = z \<rparr>)))"

definition Signature_to_bytes ::
  "('s, 'p, 'h) ciphersuite \<Rightarrow> ('s, 'p) Signature \<Rightarrow> bytes" where
  "Signature_to_bytes C sg = point_bytes C (sig_R sg) @ scalar_bytes C (sig_z sg)"

definition Signature_from_bytes ::
  "('s, 'p, 'h) ciphersuite \<Rightarrow> bytes \<Rightarrow> ('s, 'p) Signature result" where
  "Signature_from_bytes C bs =
     (let plen = point_len C; slen = scalar_len C in
      if length bs \<noteq> plen + slen then Err MalformedEncoding
      else
        and_then (ok_or (point_from_bytes C (take plen bs)) MalformedEncoding) (\<lambda>R.
        and_then (ok_or (scalar_from_bytes C (drop plen bs)) MalformedEncoding) (\<lambda>z.
          Ok \<lparr> sig_R = R, sig_z = z \<rparr>)))"

subsection \<open>Hexadecimal, through the hex crate\<close>

record hex_lib =
  hex_encode :: "bytes \<Rightarrow> string"
  hex_decode :: "string \<Rightarrow> bytes option"

text \<open>The errors behind \<open>Box<dyn std::error::Error>\<close>, in wire.rs, keygen.rs and the binaries.\<close>

datatype boxed_error =
    HexError
  | ScalarHexInvalid
  | IoError
  | YamlError
  | UnsupportedScheme string string
  | MinSignersZero
  | MaxSignersZero
  | MinExceedsMax
  | InconsistentKeyFile
  | ParseIntError
  | TxidError
  | XOnlyError
  | FeeExceedsAmount
  | SighashError
  | ProtocolError error

definition scalar_to_hex :: "('s, 'p, 'h) ciphersuite \<Rightarrow> hex_lib \<Rightarrow> 's \<Rightarrow> string" where
  "scalar_to_hex C X k = hex_encode X (scalar_to_repr C k)"

definition scalar_from_hex ::
  "('s, 'p, 'h) ciphersuite \<Rightarrow> hex_lib \<Rightarrow> string \<Rightarrow> (boxed_error, 's) outcome" where
  "scalar_from_hex C X hex_string =
     and_then (ok_or (hex_decode X hex_string) HexError) (\<lambda>bytes_vec.
       ok_or (scalar_from_bytes C bytes_vec) ScalarHexInvalid)"

definition SigningCommitments_debug ::
  "('s, 'p, 'h) ciphersuite \<Rightarrow> hex_lib \<Rightarrow> 'p SigningCommitments \<Rightarrow> string" where
  "SigningCommitments_debug C X c =
     ''SigningCommitments('' @ hex_encode X (SigningCommitments_to_bytes C c) @ '')''"

definition SignatureShare_debug ::
  "('s, 'p, 'h) ciphersuite \<Rightarrow> hex_lib \<Rightarrow> ('s, 'p) SignatureShare \<Rightarrow> string" where
  "SignatureShare_debug C X sh =
     ''SignatureShare('' @ hex_encode X (SignatureShare_to_bytes C sh) @ '')''"

definition Signature_debug ::
  "('s, 'p, 'h) ciphersuite \<Rightarrow> hex_lib \<Rightarrow> ('s, 'p) Signature \<Rightarrow> string" where
  "Signature_debug C X sg = ''Signature('' @ hex_encode X (Signature_to_bytes C sg) @ '')''"

section \<open>The interface of an encoding\<close>

locale codec =
  fixes enc :: "'a \<Rightarrow> bytes"
    and dec :: "bytes \<Rightarrow> 'a result"
    and len :: nat
  assumes dec_enc: "dec (enc x) = Ok x"
    and enc_len: "length (enc x) = len"
    and dec_wrong_len: "length bs \<noteq> len \<Longrightarrow> dec bs = Err MalformedEncoding"
    and dec_no_panic: "dec bs \<noteq> Panic"
    and dec_error: "dec bs = Err e \<Longrightarrow> e = MalformedEncoding"
begin

lemma enc_inject: "enc x = enc y \<longleftrightarrow> x = y"
  by (metis dec_enc outcome.inject(1))

lemma enc_prefix_free: "enc x @ r = enc y @ r' \<longleftrightarrow> x = y \<and> r = r'"
  using enc_len by (auto simp: append_eq_append_conv enc_inject)

lemma dec_cases: "(\<exists>x. dec bs = Ok x \<and> length bs = len) \<or> dec bs = Err MalformedEncoding"
  using dec_wrong_len [of bs] dec_no_panic [of bs] dec_error [of bs]
  by (cases "dec bs") auto

end

text \<open>Parsing is injective, so a message has one encoding, when the curve crate's parsers are.\<close>

locale canonical_codec = codec +
  assumes enc_dec: "dec bs = Ok x \<Longrightarrow> enc x = bs"
begin

lemma dec_iff: "dec bs = Ok x \<longleftrightarrow> bs = enc x"
  using dec_enc enc_dec by metis

lemma dec_fails_iff: "bs \<notin> range enc \<longleftrightarrow> dec bs = Err MalformedEncoding"
  using dec_cases [of bs] by (auto simp: dec_iff dec_enc)

end

section \<open>What the curve crate promises, and the three messages\<close>

locale wire_contract =
  fixes C :: "('s, 'p, 'h) ciphersuite"
  assumes point_parse: "point_of_repr C (point_to_repr C P) = Some P"
    and point_length: "length (point_to_repr C P) = point_repr_len C"
    and scalar_parse: "scalar_of_repr C (scalar_to_repr C k) = Some k"
    and scalar_length: "length (scalar_to_repr C k) = scalar_repr_len C"
begin

lemma length_point_bytes: "length (point_bytes C P) = point_len C"
  by (simp add: point_bytes_def point_len_def point_length)

lemma length_scalar_bytes: "length (scalar_bytes C k) = scalar_len C"
  by (simp add: scalar_bytes_def scalar_len_def scalar_length)

lemma point_from_bytes_bytes: "point_from_bytes C (point_bytes C P) = Some P"
  by (simp add: point_from_bytes_def point_bytes_def point_parse point_length)

lemma scalar_from_bytes_bytes: "scalar_from_bytes C (scalar_bytes C k) = Some k"
  by (simp add: scalar_from_bytes_def scalar_bytes_def scalar_parse scalar_length)

lemmas wire_simps = length_point_bytes length_scalar_bytes point_from_bytes_bytes
  scalar_from_bytes_bytes

lemma point_bytes_inject: "point_bytes C P = point_bytes C Q \<longleftrightarrow> P = Q"
  by (metis point_from_bytes_bytes option.inject)

end

sublocale wire_contract \<subseteq>
  commitments: codec "SigningCommitments_to_bytes C" "SigningCommitments_from_bytes C"
    "2 * point_len C"
  by unfold_locales (auto simp: SigningCommitments_to_bytes_def SigningCommitments_from_bytes_def
      Let_def wire_simps outcome_simps split: if_splits)

sublocale wire_contract \<subseteq>
  share: codec "SignatureShare_to_bytes C" "SignatureShare_from_bytes C"
    "2 + point_len C + scalar_len C"
  by unfold_locales (auto simp: SignatureShare_to_bytes_def SignatureShare_from_bytes_def
      Let_def wire_simps outcome_simps nth_append split: if_splits)

sublocale wire_contract \<subseteq>
  signature: codec "Signature_to_bytes C" "Signature_from_bytes C"
    "point_len C + scalar_len C"
  by unfold_locales (auto simp: Signature_to_bytes_def Signature_from_bytes_def
      Let_def wire_simps outcome_simps split: if_splits)

locale canonical_wire = wire_contract +
  assumes point_canonical: "point_of_repr C bs = Some P \<Longrightarrow> length bs = point_repr_len C \<Longrightarrow>
      point_to_repr C P = bs"
    and scalar_canonical: "scalar_of_repr C bs = Some k \<Longrightarrow> length bs = scalar_repr_len C \<Longrightarrow>
      scalar_to_repr C k = bs"
begin

lemma point_bytes_from: "point_from_bytes C bs = Some P \<Longrightarrow> point_bytes C P = bs"
  by (auto simp: point_from_bytes_def point_bytes_def point_canonical split: if_splits)

lemma scalar_bytes_from: "scalar_from_bytes C bs = Some k \<Longrightarrow> scalar_bytes C k = bs"
  by (auto simp: scalar_from_bytes_def scalar_bytes_def scalar_canonical split: if_splits)

end

sublocale canonical_wire \<subseteq>
  ccommitments: canonical_codec "SigningCommitments_to_bytes C" "SigningCommitments_from_bytes C"
    "2 * point_len C"
  by unfold_locales (auto simp: SigningCommitments_to_bytes_def SigningCommitments_from_bytes_def
      Let_def outcome_simps point_bytes_from split: if_splits)

lemma bytes_split_share:
  assumes "length bs = 2 + n + m"
  shows "[bs ! 0, bs ! Suc 0] @ take n (drop 2 bs) @ drop (2 + n) bs = bs"
proof -
  have "take 2 bs = [bs ! 0, bs ! Suc 0]"
    using assms by (cases bs; cases "tl bs") auto
  then have "[bs ! 0, bs ! Suc 0] @ drop 2 bs = bs" by (metis append_take_drop_id)
  moreover have "take n (drop 2 bs) @ drop (2 + n) bs = drop 2 bs"
    by (metis add.commute append_take_drop_id drop_drop)
  ultimately show ?thesis by simp
qed

sublocale canonical_wire \<subseteq>
  cshare: canonical_codec "SignatureShare_to_bytes C" "SignatureShare_from_bytes C"
    "2 + point_len C + scalar_len C"
  by unfold_locales (auto simp: SignatureShare_to_bytes_def SignatureShare_from_bytes_def
      Let_def outcome_simps point_bytes_from scalar_bytes_from to_from_be_bytes
      bytes_split_share [where m = "scalar_len C", simplified] split: if_splits)

sublocale canonical_wire \<subseteq>
  csignature: canonical_codec "Signature_to_bytes C" "Signature_from_bytes C"
    "point_len C + scalar_len C"
  by unfold_locales (auto simp: Signature_to_bytes_def Signature_from_bytes_def
      Let_def outcome_simps point_bytes_from scalar_bytes_from split: if_splits)

section \<open>The commitment map\<close>

text \<open>The bytes of one entry: identifier, D, E.\<close>

definition commitment_entry ::
  "('s, 'p, 'h) ciphersuite \<Rightarrow> Identifier \<times> 'p SigningCommitments \<Rightarrow> bytes" where
  "commitment_entry C p = to_be_bytes (fst p) @ SigningCommitments_to_bytes C (snd p)"

lemma encode_commitments_concat:
  "encode_commitments C m = concat (map (commitment_entry C) (bt_entries m))"
proof -
  have "encode_commitments C m =
      foldl (\<lambda>out p. out @ commitment_entry C p) [] (bt_entries m)"
    by (simp add: encode_commitments_def commitment_entry_def SigningCommitments_to_bytes_def
        case_prod_unfold)
  then show ?thesis by (simp add: foldl_append_map)
qed

lemma concat_map_inject:
  assumes "\<And>x y. f x = f y \<Longrightarrow> x = y" "\<And>x. length (f x) = n" "0 < n"
  shows "concat (map f xs) = concat (map f ys) \<longleftrightarrow> xs = ys"
proof (induction xs arbitrary: ys)
  case Nil
  have "concat (map f ys) = [] \<longleftrightarrow> ys = []"
    using assms(2,3) by (cases ys) (auto simp: length_greater_0_conv [symmetric] simp del: length_greater_0_conv)
  then show ?case by auto
next
  case (Cons x xs)
  show ?case
  proof (cases ys)
    case Nil
    then show ?thesis
      using assms(2) [of x] assms(3) by auto
  next
    case (Cons y zs)
    then show ?thesis
      using Cons.IH [of zs] assms(1) [of x y] assms(2) by (auto simp: append_eq_append_conv)
  qed
qed

context wire_contract
begin

lemma commitment_entry_length: "length (commitment_entry C p) = 2 + 2 * point_len C"
  by (simp add: commitment_entry_def commitments.enc_len)

lemma commitment_entry_inject: "commitment_entry C p = commitment_entry C q \<Longrightarrow> p = q"
  by (auto simp: commitment_entry_def append_eq_append_conv inj_to_be_bytes
      commitments.enc_inject prod_eq_iff)

lemma encode_commitments_inject: "encode_commitments C m = encode_commitments C n \<longleftrightarrow> m = n"
  using concat_map_inject [of "commitment_entry C", OF commitment_entry_inject commitment_entry_length]
  by (simp add: encode_commitments_concat bt_entries_inject)

lemma length_encode_commitments:
  "length (encode_commitments C m) = bt_len m * (2 + 2 * point_len C)"
proof -
  have "length (concat (map (commitment_entry C) ps)) = length ps * (2 + 2 * point_len C)" for ps
    by (induction ps) (simp_all add: commitment_entry_length)
  then show ?thesis by (simp add: encode_commitments_concat bt_len_def)
qed

end

section \<open>The contracts hold for the sample libraries\<close>

interpretation sample_plain_wire: canonical_wire sample_plain
proof unfold_locales
  show "point_to_repr sample_plain P = bs"
    if "point_of_repr sample_plain bs = Some P" for bs P
    using that gf_of_bytes_canonical by (simp add: secp256k1_plain_def sample_k256_def)
  show "scalar_to_repr sample_plain k = bs"
    if "scalar_of_repr sample_plain bs = Some k" for bs k
    using that scalar32_canonical by (simp add: secp256k1_plain_def sample_k256_def)
qed (simp_all add: secp256k1_plain_def sample_k256_def gf_of_bytes_bytes length_gf_bytes
    scalar32_parse_bytes length_scalar32)

end
