(* ===== verification/Keygen.thy ===== *)
theory Keygen
  imports Wire_Format
begin

text \<open>
  src/src/keygen.rs, the idealized dealer: Shamir shares of the (normalised) secret key,
  Pedersen commitments to them, and one 32-byte key per pair of signers, committed to by
  a hash. \<open>ovf\<close> is the build profile: with overflow checks \<open>i + 1\<close> on \<open>u16\<close> panics
  at 65535, without them it is 0. \<open>None\<close> is a panic. The key file is in the theory Key_File.
\<close>

section \<open>The functions\<close>

text \<open>\<open>coeffs.push(C::Scalar::random(rng))\<close>, n times.\<close>

fun random_scalars :: "('r, 's) rng_lib \<Rightarrow> nat \<Rightarrow> 'r \<Rightarrow> 's list \<times> 'r" where
  "random_scalars G 0 rng = ([], rng)"
| "random_scalars G (Suc n) rng =
     (let (a, rng) = scalar_random G rng; (as, rng) = random_scalars G n rng in (a # as, rng))"

text \<open>The evaluation loop: \<open>y += a * pow; pow *= x\<close>.\<close>

definition poly_eval :: "'s :: field list \<Rightarrow> 's \<Rightarrow> 's" where
  "poly_eval coeffs x = fst (foldl (\<lambda>(y, pow) a. (y + a * pow, pow * x)) (0, 1) coeffs)"

type_synonym ('s, 'p, 'r) dealer_state =
  "'s KeyShares \<times> (Identifier, 'p PartialVerificationKey) btree_map \<times> 'r"

definition dealer_share_step ::
  "('s :: field, 'p :: plus, 'h) ciphersuite \<Rightarrow> ('r, 's) rng_lib \<Rightarrow> 's list \<Rightarrow> 'p \<Rightarrow>
   ('s, 'p, 'r) dealer_state \<Rightarrow> Identifier \<Rightarrow> ('s, 'p, 'r) dealer_state" where
  "dealer_share_step C G coeffs h = (\<lambda>(shares, pvks, rng) id.
     let x = scalar_from id;
         y = poly_eval coeffs x;
         (omega_i, rng) = scalar_random G rng;
         vki = pedersen_commit C y omega_i h
     in (bt_insert id \<lparr> key_identifier = id, signing_share = y,
                        signing_share_blinding = omega_i, pairwise_keys = bt_empty \<rparr> shares,
         bt_insert id \<lparr> signing_share_commitment = vki,
                        pairwise_key_commitments = bt_empty \<rparr> pvks,
         rng))"

definition add_pairwise_key :: "Identifier \<Rightarrow> bytes \<Rightarrow> 's KeyPackage \<Rightarrow> 's KeyPackage" where
  "add_pairwise_key j k kp = kp\<lparr> pairwise_keys := bt_insert j k (pairwise_keys kp) \<rparr>"

definition add_key_commitment ::
  "Identifier \<Rightarrow> bytes \<Rightarrow> 'p PartialVerificationKey \<Rightarrow> 'p PartialVerificationKey" where
  "add_key_commitment j K vk =
     vk\<lparr> pairwise_key_commitments := bt_insert j K (pairwise_key_commitments vk) \<rparr>"

definition dealer_pair_step ::
  "('s, 'p, 'h) ciphersuite \<Rightarrow> ('r, 's) rng_lib \<Rightarrow> Identifier \<Rightarrow>
   ('s, 'p, 'r) dealer_state \<Rightarrow> Identifier \<Rightarrow> ('s, 'p, 'r) dealer_state option" where
  "dealer_pair_step C G i = (\<lambda>(shares, pvks, rng) j.
     let (k_ij, rng) = fill_bytes G 32 rng;
         K_ij = hash_pairwise_key_commitment C k_ij
     in Option.bind (bt_update i (add_pairwise_key j k_ij) shares) (\<lambda>shares.
        Option.bind (bt_update j (add_pairwise_key i k_ij) shares) (\<lambda>shares.
        Option.bind (bt_update i (add_key_commitment j K_ij) pvks) (\<lambda>pvks.
        Option.bind (bt_update j (add_key_commitment i K_ij) pvks) (\<lambda>pvks.
          Some (shares, pvks, rng))))))"

text \<open>\<open>i + 1\<close> on \<open>u16\<close>.\<close>

definition u16_succ :: "bool \<Rightarrow> Identifier \<Rightarrow> Identifier option" where
  "u16_succ ovf i = (if i = - 1 then (if ovf then None else Some 0) else Some (i + 1))"

definition dealer_row ::
  "('s, 'p, 'h) ciphersuite \<Rightarrow> ('r, 's) rng_lib \<Rightarrow> bool \<Rightarrow> Identifier \<Rightarrow>
   ('s, 'p, 'r) dealer_state \<Rightarrow> Identifier \<Rightarrow> ('s, 'p, 'r) dealer_state option" where
  "dealer_row C G ovf n_max st i =
     Option.bind (u16_succ ovf i) (\<lambda>first.
       opt_fold (dealer_pair_step C G i) st (range_incl first n_max))"

definition generate_with_dealer_from_secret ::
  "('s :: field, 'p :: plus, 'h) ciphersuite \<Rightarrow> ('r, 's) rng_lib \<Rightarrow> bool \<Rightarrow> 's \<Rightarrow>
   Identifier \<Rightarrow> Identifier \<Rightarrow> 'r \<Rightarrow> ('s KeyShares \<times> 'p PublicKeyPackage \<times> 'r) option" where
  "generate_with_dealer_from_secret C G ovf secret_key n_max n_min rng =
     (if \<not> n_min \<le> n_max then None
      else
        let vk_raw = mul_generator C secret_key;
            (sk, vk) = normalize_keygen C secret_key vk_raw
        in Option.bind (pedersen_generator C) (\<lambda>h.
          let (cs, rng) = random_scalars G (unat n_min - 1) rng;
              coeffs = sk # cs;
              st = foldl (dealer_share_step C G coeffs h) (bt_empty, bt_empty, rng)
                     (range_incl 1 n_max)
          in Option.bind (opt_fold (dealer_row C G ovf n_max) st (range_incl 1 n_max))
               (\<lambda>(shares, pvks, rng).
                 Some (shares,
                       \<lparr> verifying_key = vk, max_signers = n_max, min_signers = n_min,
                         pedersen_h = h, partial_verification_keys = pvks \<rparr>,
                       rng))))"

definition generate_with_dealer ::
  "('s :: field, 'p :: plus, 'h) ciphersuite \<Rightarrow> ('r, 's) rng_lib \<Rightarrow> bool \<Rightarrow>
   Identifier \<Rightarrow> Identifier \<Rightarrow> 'r \<Rightarrow> ('s KeyShares \<times> 'p PublicKeyPackage \<times> 'r) option" where
  "generate_with_dealer C G ovf n_max n_min rng =
     (let (sk, rng) = scalar_random G rng
      in generate_with_dealer_from_secret C G ovf sk n_max n_min rng)"

section \<open>Polynomials\<close>

lemma poly_eval_loop:
  "foldl (\<lambda>(y, pow) a. (y + a * pow, pow * x)) (y0, p0) cs =
     (y0 + p0 * poly_at cs x, p0 * x ^ length cs)"
proof (induction cs arbitrary: y0 p0)
  case (Cons a cs)
  have "poly_at (a # cs) x = a + x * poly_at cs x"
    unfolding poly_at_def
    by (simp add: sum.lessThan_Suc_shift sum_distrib_left mult.left_commute del: sum.lessThan_Suc)
  with Cons show ?case by (simp add: algebra_simps)
qed (simp add: poly_at_def)

lemma poly_eval_eq: "poly_eval cs x = poly_at cs x"
  by (simp add: poly_eval_def poly_eval_loop)

lemma length_random_scalars: "random_scalars G n rng = (cs, rng') \<Longrightarrow> length cs = n"
  by (induction n arbitrary: rng cs) (auto simp: Let_def split: prod.splits)

section \<open>The table of pairwise keys\<close>

text \<open>The key that \<open>i\<close> stores for \<open>j\<close>, and the public commitment to it.\<close>

definition pair_key :: "'s KeyShares \<Rightarrow> Identifier \<Rightarrow> Identifier \<Rightarrow> bytes option" where
  "pair_key S i j = Option.bind (bt_get S i) (\<lambda>kp. bt_get (pairwise_keys kp) j)"

definition pair_commitment ::
  "(Identifier, 'p PartialVerificationKey) btree_map \<Rightarrow> Identifier \<Rightarrow> Identifier \<Rightarrow> bytes option" where
  "pair_commitment P i j = Option.bind (bt_get P i) (\<lambda>vk. bt_get (pairwise_key_commitments vk) j)"

text \<open>A package without its pairwise entries, as the first loop leaves it.\<close>

definition strip_keys :: "'s KeyPackage \<Rightarrow> 's KeyPackage" where
  "strip_keys kp = kp\<lparr> pairwise_keys := bt_empty \<rparr>"

definition strip_commitments :: "'p PartialVerificationKey \<Rightarrow> 'p PartialVerificationKey" where
  "strip_commitments vk = vk\<lparr> pairwise_key_commitments := bt_empty \<rparr>"

lemma strip_add [simp]:
  "strip_keys (add_pairwise_key j k kp) = strip_keys kp"
  "strip_commitments (add_key_commitment j K vk) = strip_commitments vk"
  by (simp_all add: strip_keys_def add_pairwise_key_def strip_commitments_def add_key_commitment_def)

lemma pair_key_update:
  "bt_update i (add_pairwise_key j k) S = Some S' \<Longrightarrow>
   pair_key S' a b = (if a = i \<and> b = j then Some k else pair_key S a b)"
  by (auto simp: bt_update_Some pair_key_def add_pairwise_key_def)

lemma pair_commitment_update:
  "bt_update i (add_key_commitment j K) P = Some P' \<Longrightarrow>
   pair_commitment P' a b = (if a = i \<and> b = j then Some K else pair_commitment P a b)"
  by (auto simp: bt_update_Some pair_commitment_def add_key_commitment_def)

lemma bt_update_strip:
  assumes "bt_update i f m = Some m'" "\<And>x. g (f x) = g x"
  shows "map_option g (bt_get m' a) = map_option g (bt_get m a)"
  using assms by (auto simp: bt_update_Some)

lemma bt_update_total: "bt_get m i \<noteq> None \<Longrightarrow> \<exists>m'. bt_update i f m = Some m'"
  by (auto simp: bt_update_def)

text \<open>
  The invariant of the second loop: \<open>D\<close> is the set of pairs that have a key; the key is
  the same at both ends and its hash is published at both ends.
\<close>

definition pair_inv ::
  "('s, 'p, 'h) ciphersuite \<Rightarrow> 's KeyShares \<Rightarrow> (Identifier, 'p PartialVerificationKey) btree_map \<Rightarrow>
   (Identifier \<times> Identifier) set \<Rightarrow> ('s, 'p, 'r) dealer_state \<Rightarrow> bool" where
  "pair_inv C S0 P0 D = (\<lambda>(S, P, rng).
     (\<forall>i. map_option strip_keys (bt_get S i) = bt_get S0 i) \<and>
     (\<forall>i. map_option strip_commitments (bt_get P i) = bt_get P0 i) \<and>
     (\<forall>i j. pair_key S i j = pair_key S j i) \<and>
     (\<forall>i j. pair_commitment P i j = map_option (hash_pairwise_key_commitment C) (pair_key S i j)) \<and>
     (\<forall>i j. pair_key S i j \<noteq> None \<longleftrightarrow> (i, j) \<in> D))"

lemma pair_inv_step:
  assumes inv: "pair_inv C S0 P0 D st" and ij: "i \<noteq> j"
    and dom: "bt_get S0 i \<noteq> None" "bt_get S0 j \<noteq> None" "bt_get P0 i \<noteq> None" "bt_get P0 j \<noteq> None"
  shows "\<exists>st'. dealer_pair_step C G i st j = Some st' \<and> pair_inv C S0 P0 (D \<union> {(i, j), (j, i)}) st'"
proof -
  obtain S P rng where st: "st = (S, P, rng)" by (cases st)
  obtain k rng' where k: "fill_bytes G 32 rng = (k, rng')" by (cases "fill_bytes G 32 rng")
  define K where "K = hash_pairwise_key_commitment C k"
  have strip: "map_option strip_keys (bt_get S a) = bt_get S0 a"
    "map_option strip_commitments (bt_get P a) = bt_get P0 a" for a
    using inv by (auto simp: pair_inv_def st)
  have present: "bt_get S a \<noteq> None \<longleftrightarrow> bt_get S0 a \<noteq> None" "bt_get P a \<noteq> None \<longleftrightarrow> bt_get P0 a \<noteq> None" for a
    using strip [of a] by (metis option.map_disc_iff)+
  obtain S1 where S1: "bt_update i (add_pairwise_key j k) S = Some S1"
    using dom(1) present(1) by (metis bt_update_total)
  have s1: "map_option strip_keys (bt_get S1 a) = bt_get S0 a" for a
    using bt_update_strip [OF S1, of strip_keys] strip(1) by simp
  have "bt_get S1 j \<noteq> None" using dom(2) s1 [of j] by (metis option.map_disc_iff)
  then obtain S2 where S2: "bt_update j (add_pairwise_key i k) S1 = Some S2"
    by (metis bt_update_total)
  obtain P1 where P1: "bt_update i (add_key_commitment j K) P = Some P1"
    using dom(3) present(2) by (metis bt_update_total)
  have p1: "map_option strip_commitments (bt_get P1 a) = bt_get P0 a" for a
    using bt_update_strip [OF P1, of strip_commitments] strip(2) by simp
  have "bt_get P1 j \<noteq> None" using dom(4) p1 [of j] by (metis option.map_disc_iff)
  then obtain P2 where P2: "bt_update j (add_key_commitment i K) P1 = Some P2"
    by (metis bt_update_total)
  have "dealer_pair_step C G i st j = Some (S2, P2, rng')"
    by (simp add: dealer_pair_step_def st k Let_def S1 S2 P1 P2 K_def [symmetric])
  moreover have "pair_inv C S0 P0 (D \<union> {(i, j), (j, i)}) (S2, P2, rng')"
    unfolding pair_inv_def
    using inv s1 p1 ij bt_update_strip [OF S2, of strip_keys] bt_update_strip [OF P2, of strip_commitments]
    by (auto simp: pair_inv_def st pair_key_update [OF S2] pair_key_update [OF S1]
        pair_commitment_update [OF P2] pair_commitment_update [OF P1] K_def)
  ultimately show ?thesis by blast
qed

text \<open>The pairs that one row, and a list of rows, of the double loop link.\<close>

definition linked :: "Identifier \<Rightarrow> Identifier set \<Rightarrow> (Identifier \<times> Identifier) set" where
  "linked i J = {(a, b). a = i \<and> b \<in> J \<or> b = i \<and> a \<in> J}"

definition linked_rows :: "Identifier set \<Rightarrow> Identifier \<Rightarrow> (Identifier \<times> Identifier) set" where
  "linked_rows I n = (\<Union>i\<in>I. linked i {j. i < j \<and> j \<le> n})"

lemma pair_inv_inner:
  assumes "pair_inv C S0 P0 D st" "i \<notin> set js" "insert i (set js) \<subseteq> M"
    and M: "\<And>a. a \<in> M \<Longrightarrow> bt_get S0 a \<noteq> None" "\<And>a. a \<in> M \<Longrightarrow> bt_get P0 a \<noteq> None"
  shows "\<exists>st'. opt_fold (dealer_pair_step C G i) st js = Some st' \<and>
    pair_inv C S0 P0 (D \<union> linked i (set js)) st'"
  using assms(1-3)
proof (induction js arbitrary: D st)
  case Nil
  then show ?case by (simp add: linked_def)
next
  case (Cons j js)
  have ij: "i \<noteq> j" "i \<in> M" "j \<in> M" using Cons.prems by auto
  from pair_inv_step [OF Cons.prems(1) ij(1) M(1) [OF ij(2)] M(1) [OF ij(3)] M(2) [OF ij(2)] M(2) [OF ij(3)]]
  obtain st1 where st1: "dealer_pair_step C G i st j = Some st1"
    "pair_inv C S0 P0 (D \<union> {(i, j), (j, i)}) st1" by blast
  have "i \<notin> set js" "insert i (set js) \<subseteq> M" using Cons.prems by auto
  from Cons.IH [OF st1(2) this] obtain st2 where
    st2: "opt_fold (dealer_pair_step C G i) st1 js = Some st2"
    "pair_inv C S0 P0 (D \<union> {(i, j), (j, i)} \<union> linked i (set js)) st2" by blast
  have "D \<union> {(i, j), (j, i)} \<union> linked i (set js) = D \<union> linked i (set (j # js))"
    by (auto simp: linked_def)
  with st1(1) st2 show ?case by simp
qed

lemma u16_succ_less:
  assumes "i \<le> n" "n \<noteq> (- 1 :: Identifier)"
  shows "u16_succ ovf i = Some (i + 1)" "set (range_incl (i + 1) n) = {j. i < j \<and> j \<le> n}"
proof -
  have "i \<noteq> - 1"
    using assms word_order.extremum_unique by blast
  then have "1 + i \<noteq> 0"
    by (metis add.commute add_eq_0_iff2 add.inverse_inverse)
  then have "unat (1 + i) = Suc (unat i)" by (rule unatSuc)
  then have "i + 1 \<le> j \<longleftrightarrow> i < j" for j
    by (simp add: word_le_nat_alt word_less_nat_alt add.commute Suc_le_eq)
  then show "set (range_incl (i + 1) n) = {j. i < j \<and> j \<le> n}"
    by (simp add: set_range_incl)
  show "u16_succ ovf i = Some (i + 1)"
    using \<open>i \<noteq> - 1\<close> by (simp add: u16_succ_def)
qed

lemma pair_inv_rows:
  assumes "pair_inv C S0 P0 D st" "set is \<subseteq> M"
    and n: "n \<noteq> - 1" and M_def: "M = {a. 1 \<le> a \<and> a \<le> n}"
    and M: "\<And>a. a \<in> M \<Longrightarrow> bt_get S0 a \<noteq> None" "\<And>a. a \<in> M \<Longrightarrow> bt_get P0 a \<noteq> None"
  shows "\<exists>st'. opt_fold (dealer_row C G ovf n) st is = Some st' \<and>
    pair_inv C S0 P0 (D \<union> linked_rows (set is) n) st'"
  using assms(1,2)
proof (induction "is" arbitrary: D st)
  case Nil
  then show ?case by (simp add: linked_rows_def)
next
  case (Cons i "is")
  have i: "1 \<le> i" "i \<le> n" "set is \<subseteq> M" using Cons.prems(2) by (auto simp: M_def)
  note row = u16_succ_less [OF i(2) n]
  have sub: "insert i (set (range_incl (i + 1) n)) \<subseteq> M"
    using i row(2) by (auto simp: M_def)
  have nin: "i \<notin> set (range_incl (i + 1) n)" using row(2) by simp
  obtain st1 where
    st1: "opt_fold (dealer_pair_step C G i) st (range_incl (i + 1) n) = Some st1"
    "pair_inv C S0 P0 (D \<union> linked i {j. i < j \<and> j \<le> n}) st1"
    using pair_inv_inner [OF Cons.prems(1) nin sub M, of G] row(2) by metis
  from Cons.IH [OF st1(2) i(3)] obtain st2 where
    st2: "opt_fold (dealer_row C G ovf n) st1 is = Some st2"
    "pair_inv C S0 P0 (D \<union> linked i {j. i < j \<and> j \<le> n} \<union> linked_rows (set is) n) st2"
    by blast
  have "D \<union> linked i {j. i < j \<and> j \<le> n} \<union> linked_rows (set is) n = D \<union> linked_rows (set (i # is)) n"
    by (auto simp: linked_rows_def)
  moreover have "dealer_row C G ovf n st i = Some st1"
    using st1(1) row(1) [of ovf] by (simp add: dealer_row_def)
  ultimately show ?case using st2 by simp
qed

lemma linked_rows_all: "linked_rows {a. 1 \<le> a \<and> a \<le> n} n =
    {(a, b). a \<noteq> b \<and> 1 \<le> a \<and> a \<le> n \<and> 1 \<le> b \<and> b \<le> n}"
  by (auto simp: linked_rows_def linked_def)
    (metis order.strict_implies_order order.trans linorder_less_linear)+

section \<open>The first loop\<close>

lemma dealer_shares_loop:
  assumes "distinct ids"
  shows "\<exists>S P rng' w. foldl (dealer_share_step C G coeffs h) (S0, P0, rng) ids = (S, P, rng') \<and>
    (\<forall>i. bt_get S i = (if i \<in> set ids then
         Some \<lparr> key_identifier = i, signing_share = poly_at coeffs (scalar_from i),
                signing_share_blinding = w i, pairwise_keys = bt_empty \<rparr> else bt_get S0 i)) \<and>
    (\<forall>i. bt_get P i = (if i \<in> set ids then
         Some \<lparr> signing_share_commitment =
                  pedersen_commit C (poly_at coeffs (scalar_from i)) (w i) h,
                pairwise_key_commitments = bt_empty \<rparr> else bt_get P0 i))"
  using assms
proof (induction ids arbitrary: S0 P0 rng)
  case (Cons i ids)
  obtain w0 rng1 where w0: "scalar_random G rng = (w0, rng1)" by (cases "scalar_random G rng")
  obtain S1 P1 where step: "dealer_share_step C G coeffs h (S0, P0, rng) i = (S1, P1, rng1)"
    and S1: "S1 = bt_insert i \<lparr> key_identifier = i, signing_share = poly_at coeffs (scalar_from i),
                signing_share_blinding = w0, pairwise_keys = bt_empty \<rparr> S0"
    and P1: "P1 = bt_insert i \<lparr> signing_share_commitment =
                  pedersen_commit C (poly_at coeffs (scalar_from i)) w0 h,
                pairwise_key_commitments = bt_empty \<rparr> P0"
    by (simp add: dealer_share_step_def w0 Let_def poly_eval_eq)
  from Cons obtain S P rng' w where
    loop: "foldl (dealer_share_step C G coeffs h) (S1, P1, rng1) ids = (S, P, rng')"
    and S: "\<And>i. bt_get S i = (if i \<in> set ids then
         Some \<lparr> key_identifier = i, signing_share = poly_at coeffs (scalar_from i),
                signing_share_blinding = w i, pairwise_keys = bt_empty \<rparr> else bt_get S1 i)"
    and P: "\<And>i. bt_get P i = (if i \<in> set ids then
         Some \<lparr> signing_share_commitment =
                  pedersen_commit C (poly_at coeffs (scalar_from i)) (w i) h,
                pairwise_key_commitments = bt_empty \<rparr> else bt_get P1 i)"
    by auto metis
  show ?case
    using Cons.prems step loop S P
    by (intro exI [of _ S] exI [of _ P] exI [of _ rng'] exI [of _ "w(i := w0)"])
      (auto simp: S1 P1)
qed auto

section \<open>What the dealer hands out\<close>

text \<open>
  The specification of the dealer: shares of one polynomial, commitments to them, and a
  symmetric table of pairwise keys with public hashes.
\<close>

definition valid_keys ::
  "('s :: field, 'p :: ab_group_add, 'h) ciphersuite \<Rightarrow> 's list \<Rightarrow> 's KeyShares \<Rightarrow>
   'p PublicKeyPackage \<Rightarrow> bool" where
  "valid_keys C coeffs shares pubs \<longleftrightarrow>
     coeffs \<noteq> [] \<and> length coeffs = Suc (unat (min_signers pubs) - 1) \<and>
     verifying_key pubs = point_mul C (generator C) (hd coeffs) \<and>
     pedersen_generator C = Some (pedersen_h pubs) \<and>
     (\<forall>i. bt_contains_key shares i \<longleftrightarrow> 1 \<le> i \<and> i \<le> max_signers pubs) \<and>
     (\<forall>i. bt_contains_key (partial_verification_keys pubs) i \<longleftrightarrow> 1 \<le> i \<and> i \<le> max_signers pubs) \<and>
     (\<forall>i kp. bt_get shares i = Some kp \<longrightarrow>
        key_identifier kp = i \<and> signing_share kp = poly_at coeffs (scalar_from i)) \<and>
     (\<forall>i kp vk. bt_get shares i = Some kp \<longrightarrow> bt_get (partial_verification_keys pubs) i = Some vk \<longrightarrow>
        signing_share_commitment vk =
          pedersen_commit C (signing_share kp) (signing_share_blinding kp) (pedersen_h pubs)) \<and>
     (\<forall>i j. pair_key shares i j = pair_key shares j i) \<and>
     (\<forall>i j. pair_commitment (partial_verification_keys pubs) i j =
        map_option (hash_pairwise_key_commitment C) (pair_key shares i j)) \<and>
     (\<forall>i j. pair_key shares i j \<noteq> None \<longleftrightarrow>
        i \<noteq> j \<and> bt_contains_key shares i \<and> bt_contains_key shares j)"

text \<open>The part of it that signing relies on: shares of a polynomial for threshold \<open>t\<close>, and the keys.\<close>

definition secret_shares :: "'s :: field list \<Rightarrow> nat \<Rightarrow> 's KeyShares \<Rightarrow> bool" where
  "secret_shares coeffs t shares \<longleftrightarrow>
     coeffs \<noteq> [] \<and> length coeffs = Suc (t - 1) \<and>
     (\<forall>i kp. bt_get shares i = Some kp \<longrightarrow>
        key_identifier kp = i \<and> signing_share kp = poly_at coeffs (scalar_from i)) \<and>
     (\<forall>i j. pair_key shares i j = pair_key shares j i) \<and>
     (\<forall>i j. pair_key shares i j \<noteq> None \<longleftrightarrow>
        i \<noteq> j \<and> bt_contains_key shares i \<and> bt_contains_key shares j)"

lemma valid_keys_secret:
  "valid_keys C coeffs shares pubs \<Longrightarrow> secret_shares coeffs (unat (min_signers pubs)) shares"
  by (simp add: valid_keys_def secret_shares_def)

lemma pair_inv_start:
  assumes "\<And>i kp. bt_get S i = Some kp \<Longrightarrow> pairwise_keys kp = bt_empty"
    and "\<And>i vk. bt_get P i = Some vk \<Longrightarrow> pairwise_key_commitments vk = bt_empty"
  shows "pair_inv C S P {} (S, P, rng)"
proof -
  have "map_option strip_keys (bt_get S i) = bt_get S i"
    "map_option strip_commitments (bt_get P i) = bt_get P i" for i
    using assms by (cases "bt_get S i"; cases "bt_get P i"; force simp: strip_keys_def strip_commitments_def)+
  moreover have "pair_key S i j = None" "pair_commitment P i j = None" for i j
    using assms by (cases "bt_get S i"; cases "bt_get P i"; force simp: pair_key_def pair_commitment_def)+
  ultimately show ?thesis by (simp add: pair_inv_def)
qed

text \<open>The two loops together, for a maximum below 65535.\<close>

lemma dealer_loops:
  assumes "n \<noteq> - 1"
  shows "\<exists>S P rng'.
    opt_fold (dealer_row C G ovf n)
      (foldl (dealer_share_step C G coeffs h) (bt_empty, bt_empty, rng) (range_incl 1 n))
      (range_incl 1 n) = Some (S, P, rng') \<and>
    (\<forall>i. bt_contains_key S i \<longleftrightarrow> 1 \<le> i \<and> i \<le> n) \<and>
    (\<forall>i. bt_contains_key P i \<longleftrightarrow> 1 \<le> i \<and> i \<le> n) \<and>
    (\<forall>i kp. bt_get S i = Some kp \<longrightarrow>
        key_identifier kp = i \<and> signing_share kp = poly_at coeffs (scalar_from i)) \<and>
    (\<forall>i kp vk. bt_get S i = Some kp \<longrightarrow> bt_get P i = Some vk \<longrightarrow>
        signing_share_commitment vk =
          pedersen_commit C (signing_share kp) (signing_share_blinding kp) h) \<and>
    (\<forall>i j. pair_key S i j = pair_key S j i) \<and>
    (\<forall>i j. pair_commitment P i j = map_option (hash_pairwise_key_commitment C) (pair_key S i j)) \<and>
    (\<forall>i j. pair_key S i j \<noteq> None \<longleftrightarrow> i \<noteq> j \<and> bt_contains_key S i \<and> bt_contains_key S j)"
proof -
  define M where "M = {a. 1 \<le> a \<and> a \<le> n}"
  have setM: "set (range_incl 1 n) = M" by (simp add: M_def set_range_incl)
  obtain S0 P0 rng0 w where
    shares: "foldl (dealer_share_step C G coeffs h) (bt_empty, bt_empty, rng) (range_incl 1 n) = (S0, P0, rng0)"
    and S0: "\<And>i. bt_get S0 i = (if i \<in> M then
         Some \<lparr> key_identifier = i, signing_share = poly_at coeffs (scalar_from i),
                signing_share_blinding = w i, pairwise_keys = bt_empty \<rparr> else None)"
    and P0: "\<And>i. bt_get P0 i = (if i \<in> M then
         Some \<lparr> signing_share_commitment =
                  pedersen_commit C (poly_at coeffs (scalar_from i)) (w i) h,
                pairwise_key_commitments = bt_empty \<rparr> else None)"
    using dealer_shares_loop [OF distinct_range_incl, of C G coeffs h bt_empty bt_empty rng 1 n,
        unfolded btm.get_empty setM] by auto
  have "pair_inv C S0 P0 {} (S0, P0, rng0)"
    by (rule pair_inv_start) (auto simp: S0 P0 split: if_splits)
  then obtain st where
    rows: "opt_fold (dealer_row C G ovf n) (S0, P0, rng0) (range_incl 1 n) = Some st"
    "pair_inv C S0 P0 (linked_rows M n) st"
    using pair_inv_rows [of C S0 P0 "{}" "(S0, P0, rng0)" "range_incl 1 n" M n G ovf] assms
    by (auto simp: setM M_def S0 P0)
  obtain S P rng' where st: "st = (S, P, rng')" by (cases st)
  have S: "map_option strip_keys (bt_get S i) = bt_get S0 i" for i
    using rows(2) by (simp add: pair_inv_def st)
  have P: "map_option strip_commitments (bt_get P i) = bt_get P0 i" for i
    using rows(2) by (simp add: pair_inv_def st)
  have kp: "strip_keys kp = \<lparr> key_identifier = i, signing_share = poly_at coeffs (scalar_from i),
      signing_share_blinding = w i, pairwise_keys = bt_empty \<rparr> \<and> i \<in> M"
    if "bt_get S i = Some kp" for i kp
    using S [of i] that by (auto simp: S0 split: if_splits)
  have vk: "strip_commitments vk = \<lparr> signing_share_commitment =
      pedersen_commit C (poly_at coeffs (scalar_from i)) (w i) h, pairwise_key_commitments = bt_empty \<rparr> \<and> i \<in> M"
    if "bt_get P i = Some vk" for i vk
    using P [of i] that by (auto simp: P0 split: if_splits)
  have dom: "bt_contains_key S i \<longleftrightarrow> i \<in> M" "bt_contains_key P i \<longleftrightarrow> i \<in> M" for i
    using S [of i] P [of i] by (auto simp: bt_contains_key_def S0 P0 split: if_splits)
  have fields: "key_identifier kp = i \<and> signing_share kp = poly_at coeffs (scalar_from i) \<and>
      signing_share_blinding kp = w i" if "bt_get S i = Some kp" for i kp
    using kp [OF that] by (cases kp) (auto simp: strip_keys_def)
  have comm: "signing_share_commitment vk = pedersen_commit C (poly_at coeffs (scalar_from i)) (w i) h"
    if "bt_get P i = Some vk" for i vk
    using vk [OF that] by (cases vk) (auto simp: strip_commitments_def)
  have "opt_fold (dealer_row C G ovf n)
      (foldl (dealer_share_step C G coeffs h) (bt_empty, bt_empty, rng) (range_incl 1 n))
      (range_incl 1 n) = Some (S, P, rng')"
    by (simp add: shares rows(1) st)
  moreover have "pair_key S i j \<noteq> None \<longleftrightarrow> i \<noteq> j \<and> bt_contains_key S i \<and> bt_contains_key S j" for i j
    using rows(2) linked_rows_all [of n] dom
    by (auto simp: pair_inv_def st M_def)
  ultimately show ?thesis
    using dom fields comm rows(2) by (auto simp: pair_inv_def st M_def)
qed

section \<open>When the dealer panics\<close>

text \<open>Neither loop creates the entry of signer 0, which is never dealt to.\<close>

lemma bt_update_dom: "bt_update i f m = Some m' \<Longrightarrow> bt_get m' a = None \<longleftrightarrow> bt_get m a = None"
  by (auto simp: bt_update_Some split: if_splits)

lemma bt_update_absent: "bt_get m i = None \<Longrightarrow> bt_update i f m = None"
  by (simp add: bt_update_def)

lemma dealer_pair_step_dom:
  assumes "dealer_pair_step C G i st j = Some st'"
  shows "bt_get (fst st') a = None \<longleftrightarrow> bt_get (fst st) a = None"
  using assms
  by (cases st) (auto simp: dealer_pair_step_def Let_def bind_eq_Some_conv bt_update_dom
      split: prod.splits)

lemma dealer_pair_step_absent:
  assumes "bt_get (fst st) j = None"
  shows "dealer_pair_step C G i st j = None"
proof (cases st)
  case (fields S P rng)
  have "bt_update j f S' = None" if "bt_update i g S = Some S'" for f g S'
    using that assms fields by (simp add: bt_update_absent bt_update_dom)
  with fields show ?thesis
    by (auto simp: dealer_pair_step_def Let_def bind_eq_None_conv split: prod.splits)
qed

lemma dealer_row_dom:
  assumes "dealer_row C G ovf n st i = Some st'" "bt_get (fst st) 0 = None"
  shows "bt_get (fst st') 0 = None"
proof -
  obtain first where "opt_fold (dealer_pair_step C G i) st (range_incl first n) = Some st'"
    using assms(1) by (auto simp: dealer_row_def bind_eq_Some_conv)
  then show ?thesis
    by (rule opt_fold_inv [where P = "\<lambda>st. bt_get (fst st) 0 = None"])
      (simp_all add: assms(2) dealer_pair_step_dom)
qed

text \<open>The row of 65535 fails in both build profiles.\<close>

lemma dealer_row_last:
  assumes "bt_get (fst st) 0 = None"
  shows "dealer_row C G ovf (- 1) st (- 1) = None"
proof (cases ovf)
  case False
  have "range_incl 0 (- 1) = 0 # tl (range_incl 0 (- 1))"
    by (simp add: range_incl_def upt_conv_Cons del: upt_Suc)
  then have "opt_fold (dealer_pair_step C G (- 1)) st (range_incl 0 (- 1)) = None"
    using dealer_pair_step_absent [OF assms] by (metis bind.bind_lzero opt_fold.simps(2))
  with False show ?thesis by (simp add: dealer_row_def u16_succ_def)
qed (simp add: dealer_row_def u16_succ_def)

lemma dealer_loops_last:
  "opt_fold (dealer_row C G ovf (- 1))
     (foldl (dealer_share_step C G coeffs h) (bt_empty, bt_empty, rng) (range_incl 1 (- 1)))
     (range_incl 1 (- 1)) = None"
proof (rule opt_fold_None_inv [where P = "\<lambda>st. bt_get (fst st) 0 = None"])
  show "- 1 \<in> set (range_incl 1 (- 1))" by (simp add: set_range_incl)
  have "0 \<notin> set (range_incl 1 (- 1))" by (simp add: set_range_incl)
  then show "bt_get (fst (foldl (dealer_share_step C G coeffs h) (bt_empty, bt_empty, rng)
      (range_incl 1 (- 1)))) 0 = None"
    using dealer_shares_loop [OF distinct_range_incl, of C G coeffs h bt_empty bt_empty rng 1 "- 1"]
    by auto
qed (simp_all add: dealer_row_dom dealer_row_last)

text \<open>The dealer succeeds on every other input.\<close>

lemma dealer_returns:
  assumes "n_min \<le> n_max" "pedersen_generator C \<noteq> None" "n_max \<noteq> - 1"
  shows "\<exists>shares pubs rng'.
    generate_with_dealer_from_secret C G ovf sk n_max n_min rng = Some (shares, pubs, rng')"
proof -
  obtain sk' vk where nk: "normalize_keygen C sk (mul_generator C sk) = (sk', vk)"
    by (cases "normalize_keygen C sk (mul_generator C sk)")
  obtain cs rng1 where cs: "random_scalars G (unat n_min - Suc 0) rng = (cs, rng1)"
    by (cases "random_scalars G (unat n_min - Suc 0) rng")
  obtain h where h: "pedersen_generator C = Some h" using assms(2) by blast
  from dealer_loops [OF assms(3), of C G ovf "sk' # cs" h rng1] show ?thesis
    using assms(1) by (auto simp: generate_with_dealer_from_secret_def nk cs h)
qed

lemma dealer_returned:
  assumes "generate_with_dealer_from_secret C G ovf sk n_max n_min rng = Some r"
  shows "n_min \<le> n_max" "pedersen_generator C \<noteq> None" "n_max \<noteq> - 1"
  using assms
  by (auto simp: generate_with_dealer_from_secret_def Let_def dealer_loops_last bind_eq_Some_conv
      case_prod_unfold split: if_splits)

section \<open>The shares are shares of the key\<close>

lemma secret_shares_get:
  assumes "secret_shares coeffs t shares" "bt_contains_key shares i"
  obtains kp where "bt_get shares i = Some kp" "key_identifier kp = i"
    "signing_share kp = poly_at coeffs (scalar_from i)"
proof -
  obtain kp where kp: "bt_get shares i = Some kp" using assms(2) by (rule bt_contains_keyE)
  show thesis by (rule that [OF kp]) (use assms(1) kp in \<open>simp_all add: secret_shares_def\<close>)
qed

lemmas valid_keys_get = secret_shares_get [OF valid_keys_secret]

lemma valid_keys_commitment:
  assumes "valid_keys C coeffs shares pubs" "bt_get shares i = Some kp"
  obtains vki where "bt_get (partial_verification_keys pubs) i = Some vki"
    "signing_share_commitment vki =
       pedersen_commit C (signing_share kp) (signing_share_blinding kp) (pedersen_h pubs)"
proof -
  have dom: "\<forall>i. bt_contains_key shares i \<longleftrightarrow> 1 \<le> i \<and> i \<le> max_signers pubs"
    using assms(1) unfolding valid_keys_def by (elim conjE) assumption
  have dom': "\<forall>i. bt_contains_key (partial_verification_keys pubs) i \<longleftrightarrow> 1 \<le> i \<and> i \<le> max_signers pubs"
    using assms(1) unfolding valid_keys_def by (elim conjE) assumption
  have commitment: "\<forall>i kp vk. bt_get shares i = Some kp \<longrightarrow>
        bt_get (partial_verification_keys pubs) i = Some vk \<longrightarrow> signing_share_commitment vk =
          pedersen_commit C (signing_share kp) (signing_share_blinding kp) (pedersen_h pubs)"
    using assms(1) unfolding valid_keys_def by (elim conjE) assumption
  have "bt_contains_key shares i" using assms(2) by (simp add: bt_contains_key_def)
  then have "bt_contains_key (partial_verification_keys pubs) i" by (simp add: dom dom')
  then obtain vki where vki: "bt_get (partial_verification_keys pubs) i = Some vki"
    by (rule bt_contains_keyE)
  show thesis by (rule that [OF vki]) (use commitment assms(2) vki in simp)
qed

lemma dealer_valid:
  assumes "suite_contract C"
    and "generate_with_dealer_from_secret C G ovf sk n_max n_min rng = Some (shares, pubs, rng')"
  shows "\<exists>coeffs. valid_keys C coeffs shares pubs \<and>
    hd coeffs = fst (normalize_keygen C sk (mul_generator C sk)) \<and>
    max_signers pubs = n_max \<and> min_signers pubs = n_min"
proof -
  obtain sk' vk where nk: "normalize_keygen C sk (mul_generator C sk) = (sk', vk)"
    by (cases "normalize_keygen C sk (mul_generator C sk)")
  then have vk: "vk = point_mul C (generator C) sk'"
    using suite_contract.normalize_keygen_pair [OF assms(1)]
      suite_contract.mul_generator_eq [OF assms(1)] by metis
  obtain cs rng1 where cs: "random_scalars G (unat n_min - Suc 0) rng = (cs, rng1)"
    by (cases "random_scalars G (unat n_min - Suc 0) rng")
  obtain h where h: "pedersen_generator C = Some h"
    and loops: "opt_fold (dealer_row C G ovf n_max)
        (foldl (dealer_share_step C G (sk' # cs) h) (bt_empty, bt_empty, rng1) (range_incl 1 n_max))
        (range_incl 1 n_max) = Some (shares, partial_verification_keys pubs, rng')"
    and pubs: "verifying_key pubs = vk" "max_signers pubs = n_max" "min_signers pubs = n_min"
      "pedersen_h pubs = h"
    using assms(2)
    by (auto simp: generate_with_dealer_from_secret_def nk cs bind_eq_Some_conv split: if_splits)
  have "n_max \<noteq> - 1"
    using loops by (auto simp: dealer_loops_last)
  from dealer_loops [OF this, of C G ovf "sk' # cs" h rng1]
  have "valid_keys C (sk' # cs) shares pubs"
    using loops pubs h vk length_random_scalars [OF cs]
    by (auto simp: valid_keys_def)
  with pubs nk show ?thesis by (intro exI [of _ "sk' # cs"]) simp
qed

context suite_contract
begin

lemma quorum_sum:
  assumes keys: "secret_shares (coeffs :: 's list) t shares"
    and ids: "distinct ids" "ids \<noteq> []" "t \<le> length ids"
    and dealt: "\<And>i. i \<in> set ids \<Longrightarrow> bt_contains_key shares i"
  shows "sum_list (map (\<lambda>i. lag (set ids) scalar_from i * signing_share (the (bt_get shares i))) ids) =
    hd coeffs"
proof (rule lagrange_recovers)
  show "length coeffs \<le> length ids"
    using keys ids by (cases ids) (auto simp: secret_shares_def)
  show "signing_share (the (bt_get shares i)) = poly_at coeffs (scalar_from i)" if "i \<in> set ids" for i
    using keys dealt [OF that] by (auto simp: secret_shares_def bt_contains_key_def)
qed (use keys ids in \<open>auto simp: secret_shares_def\<close>)

end

section \<open>The properties\<close>

text \<open>
  (C5) The dealer's output is well formed: whenever key generation returns, the shares are
  evaluations of one polynomial with \<open>max(1, min_signers)\<close> coefficients whose constant term
  is the secret key or its negation (BIP-340) and matches the group key; the published
  commitments open to the shares; every pair of signers holds one common key, and no other
  pair does; and the published hash of every pairwise key is the hash of that key.
\<close>

theorem dealer_output_valid:
  assumes "suite_contract C"
    and "generate_with_dealer_from_secret C G ovf sk n_max n_min rng = Some (shares, pubs, rng')"
  shows "max_signers pubs = n_max \<and> min_signers pubs = n_min \<and>
    (\<exists>coeffs. valid_keys C coeffs shares pubs \<and> (hd coeffs = sk \<or> hd coeffs = - sk))"
proof -
  have "fst (normalize_keygen C sk (mul_generator C sk)) \<in> {sk, - sk}"
    using suite_contract.normalize_keygen_pair [OF assms(1), of sk]
    by (cases "normalize_keygen C sk (mul_generator C sk)")
      (auto simp: suite_contract.mul_generator_eq [OF assms(1)])
  with dealer_valid [OF assms] show ?thesis by auto
qed

lemma dealer_output_valid_witness:
  "\<exists>shares pubs rng' coeffs.
     generate_with_dealer_from_secret sample_bip340 sample_rng True 5 2 1 0 = Some (shares, pubs, rng') \<and>
     max_signers pubs = 2 \<and> valid_keys sample_bip340 coeffs shares pubs"
proof -
  have "generate_with_dealer_from_secret sample_bip340 sample_rng True 5 2 1 0 \<noteq> None"
    by code_simp
  then obtain shares pubs rng' where
    gen: "generate_with_dealer_from_secret sample_bip340 sample_rng True 5 2 1 0 = Some (shares, pubs, rng')"
    by auto
  from dealer_output_valid [OF sample_bip340_contract gen] gen show ?thesis by blast
qed

text \<open>
  (C40) Exactly when key generation panics: when the threshold exceeds the number of
  signers, when the second generator cannot be derived, or when 65535 signers are asked
  for. In the last case \<open>i + 1\<close> overflows in the last row of the pairwise loop; without
  overflow checks the row restarts at signer 0, which has no share, and the \<open>unwrap\<close>
  panics instead.
\<close>

theorem dealer_panics_iff:
  "generate_with_dealer_from_secret C G ovf sk n_max n_min rng = None \<longleftrightarrow>
     n_max < n_min \<or> pedersen_generator C = None \<or> n_max = 65535"
proof -
  have last: "(65535 :: Identifier) = - 1" by simp
  show ?thesis
  proof (cases "n_min \<le> n_max \<and> pedersen_generator C \<noteq> None \<and> n_max \<noteq> - 1")
    case True
    then show ?thesis
      using dealer_returns [of n_min n_max C G ovf sk rng] unfolding last by auto
  next
    case False
    then show ?thesis
      unfolding last
      by (auto simp: generate_with_dealer_from_secret_def Let_def dealer_loops_last
          split: prod.splits bind_splits)
  qed
qed

text \<open>
  (C6) Shamir reconstruction: the shares of any quorum (distinct dealt signers, at least
  \<open>min_signers\<close> of them), weighted with the code's Lagrange coefficients, add up to the
  discrete logarithm of the group key; no coefficient's \<open>unwrap\<close> panics.
\<close>

theorem quorum_recovers_key:
  fixes C :: "('s :: field, 'p :: ab_group_add, 'h) ciphersuite"
  assumes "suite_contract C"
    and "generate_with_dealer_from_secret C G ovf sk n_max n_min rng = Some (shares, pubs, rng')"
    and "distinct ids" "ids \<noteq> []" "unat n_min \<le> length ids"
    and "\<And>i. i \<in> set ids \<Longrightarrow> 1 \<le> i \<and> i \<le> n_max"
  shows "(\<forall>i. lagrange i ids \<noteq> (None :: 's option)) \<and>
    mul_generator C (sum_list (map (\<lambda>i. the (lagrange i ids) * signing_share (the (bt_get shares i))) ids)) =
      verifying_key pubs"
proof -
  obtain coeffs where keys: "valid_keys C coeffs shares pubs" "min_signers pubs = n_min"
    "max_signers pubs = n_max"
    using dealer_valid [OF assms(1,2)] by blast
  have "bt_contains_key shares i" if "i \<in> set ids" for i
    using assms(6) [OF that] keys by (simp add: valid_keys_def)
  note suite_contract.quorum_sum [OF assms(1) valid_keys_secret [OF keys(1)] assms(3,4) _ this]
  then show ?thesis
    using assms(5) keys
    by (simp add: suite_contract.lagrange_total [OF assms(1,3)]
        suite_contract.mul_generator_eq [OF assms(1)] valid_keys_def)
qed

lemma quorum_recovers_key_witness:
  "\<exists>shares pubs rng'.
     generate_with_dealer_from_secret sample_bip340 sample_rng True 5 3 2 0 = Some (shares, pubs, rng') \<and>
     mul_generator sample_bip340 (sum_list (map (\<lambda>i. the (lagrange i [3, 1]) *
       signing_share (the (bt_get shares i))) [3, 1])) = verifying_key pubs"
proof -
  have "pedersen_generator sample_bip340 \<noteq> None"
    by (simp add: secp256k1_bip340_def sample_k256_def secp_pedersen_generator_def gf_calc)
  then obtain shares pubs rng' where
    gen: "generate_with_dealer_from_secret sample_bip340 sample_rng True 5 3 2 0 = Some (shares, pubs, rng')"
    using dealer_returns [of 2 3 sample_bip340 sample_rng True 5 0] by auto
  have "1 \<le> i \<and> i \<le> 3" if "i \<in> set [3, 1]" for i :: Identifier
    using that by auto
  with quorum_recovers_key [OF sample_bip340_contract gen, of "[3, 1]"] gen show ?thesis
    by fastforce
qed

end
