(* ===== verification/Signing.thy ===== *)
theory Signing
  imports Keygen
begin

text \<open>
  src/src/sign.rs and src/src/verify.rs: nonce commitment, signature shares, aggregation,
  and the check of the aggregate. \<open>Panic\<close> stands for the panics that \<open>C::challenge\<close> (BIP-340,
  on the identity) and the inversion in \<open>lagrange\<close> can raise. The lemmas give each function
  in closed form on every branch; the properties say when an honest round verifies.
\<close>

section \<open>The functions\<close>

definition SignatureShare_new ::
  "('s :: plus, 'p, 'h) ciphersuite \<Rightarrow> Identifier \<Rightarrow> 'p \<Rightarrow> 's \<Rightarrow> 's \<Rightarrow> ('s, 'p) SignatureShare" where
  "SignatureShare_new C i R nonce z_rest =
     (let (R, nonce) = normalize_share_r C R nonce
      in \<lparr> share_identifier = i, share_R = R, share_z = z_rest + nonce \<rparr>)"

definition commit ::
  "('s, 'p, 'h) ciphersuite \<Rightarrow> ('r, 's) rng_lib \<Rightarrow> 'r \<Rightarrow>
   's SigningNonces \<times> 'p SigningCommitments \<times> 'r" where
  "commit C G rng =
     (let (d, rng) = scalar_random G rng;
          (e, rng) = scalar_random G rng;
          D = mul_generator C d;
          E = mul_generator C e
      in (\<lparr> nonce_d = d, nonce_e = e \<rparr>, \<lparr> comm_D = D, comm_E = E \<rparr>, rng))"

definition blinding_scalar ::
  "('s :: field, 'p, 'h) ciphersuite \<Rightarrow> 's KeyPackage \<Rightarrow> Identifier list \<Rightarrow> bytes \<Rightarrow> bytes \<Rightarrow>
   's result" where
  "blinding_scalar C kp ids commitments_bytes msg =
     (let signer_set_bytes = encode_signer_set ids;
          base = blinding_base C commitments_bytes msg signer_set_bytes
      in try_fold (\<lambda>blind j.
           if j = key_identifier kp then Ok blind
           else and_then (ok_or (bt_get (pairwise_keys kp) j) (MissingPairwiseKey j)) (\<lambda>k_ij.
                  let B_ij = finish_with C base k_ij
                  in if key_identifier kp > j then Ok (blind + B_ij) else Ok (blind - B_ij)))
           0 ids)"

text \<open>The loop \<open>D += c.D; E += c.E\<close> over the commitments.\<close>

definition sum_commitments ::
  "(Identifier, 'p :: ab_group_add SigningCommitments) btree_map \<Rightarrow> 'p \<times> 'p" where
  "sum_commitments cs = foldl (\<lambda>(D, E) c. (D + comm_D c, E + comm_E c)) (0, 0) (bt_values cs)"

definition sign ::
  "('s :: field, 'p :: ab_group_add, 'h) ciphersuite \<Rightarrow> 'p SigningPackage \<Rightarrow> 's SigningNonces \<Rightarrow>
   's KeyPackage \<Rightarrow> 'p PublicKeyPackage \<Rightarrow> ('s, 'p) SignatureShare result" where
  "sign C signing_package signer_nonces key_package pubkeys =
     (let ids = bt_keys (signing_commitments signing_package);
          i = key_identifier key_package;
          commitments_bytes = encode_commitments C (signing_commitments signing_package)
      in and_then (ok_or (bt_get (signing_commitments signing_package) i) (UnknownSigner i))
        (\<lambda>signer_commitment.
         if comm_D signer_commitment \<noteq> mul_generator C (nonce_d signer_nonces)
            \<or> comm_E signer_commitment \<noteq> mul_generator C (nonce_e signer_nonces)
         then Err (NonceCommitmentMismatch i)
         else
           let (D, E) = sum_commitments (signing_commitments signing_package);
               b = binding_factor C (verifying_key pubkeys) (encode_signer_set ids)
                     (message signing_package) commitments_bytes;
               R = D + point_mul C E b
           in and_then (unwrap (challenge C (verifying_key pubkeys) R (message signing_package)))
             (\<lambda>c. and_then (unwrap (lagrange i ids))
             (\<lambda>lambda_i. and_then
                 (blinding_scalar C key_package ids commitments_bytes (message signing_package))
             (\<lambda>blind.
                let nonce = nonce_d signer_nonces + b * nonce_e signer_nonces;
                    z_rest = c * lambda_i * signing_share key_package + blind
                in Ok (SignatureShare_new C i R nonce z_rest))))))"

definition aggregate ::
  "'p SigningPackage \<Rightarrow> (Identifier, ('s :: field, 'p) SignatureShare) btree_map \<Rightarrow>
   ('s, 'p) Signature result" where
  "aggregate signing_package signature_shares =
     (let expected = bt_len (signing_commitments signing_package);
          got = bt_len signature_shares
      in if expected \<noteq> got then Err (ShareCountMismatch expected got)
         else and_then
           (try_fold (\<lambda>(z, R_opt) share.
              let z = z + share_z share
              in case R_opt of
                   Some R \<Rightarrow> if R \<noteq> share_R share then Err InconsistentAggregateNonce
                             else Ok (z, Some R)
                 | None \<Rightarrow> Ok (z, Some (share_R share)))
              (0, None) (bt_values signature_shares))
           (\<lambda>(z, R_opt). and_then (ok_or R_opt NoSignatureShares) (\<lambda>R.
              Ok \<lparr> sig_R = R, sig_z = z \<rparr>)))"

text \<open>verify.rs; \<open>None\<close> is the panic of \<open>C::challenge\<close>.\<close>

definition verify ::
  "('s, 'p :: plus, 'h) ciphersuite \<Rightarrow> ('s, 'p) Signature \<Rightarrow> bytes \<Rightarrow> 'p PublicKeyPackage \<Rightarrow>
   bool option" where
  "verify C signature msg pubkeys =
     (if \<not> accept_r C (sig_R signature) then Some False
      else Option.bind (challenge C (verifying_key pubkeys) (sig_R signature) msg) (\<lambda>c.
        Some (mul_generator C (sig_z signature) =
                sig_R signature + point_mul C (verifying_key pubkeys) c)))"

section \<open>Closed forms\<close>

text \<open>The blinding value of a pair, and the values a package determines.\<close>

definition pair_blinding ::
  "('s, 'p, 'h) ciphersuite \<Rightarrow> Identifier list \<Rightarrow> bytes \<Rightarrow> bytes \<Rightarrow> bytes \<Rightarrow> 's" where
  "pair_blinding C ids cb msg k = finish_with C (blinding_base C cb msg (encode_signer_set ids)) k"

lemma blinding_scalar_eq:
  "blinding_scalar C kp ids cb msg =
     (case find (\<lambda>j. j \<noteq> key_identifier kp \<and> bt_get (pairwise_keys kp) j = None) ids of
        Some j \<Rightarrow> Err (MissingPairwiseKey j)
      | None \<Rightarrow> Ok (sum_list (map (\<lambda>j. delta (key_identifier kp) j *
          pair_blinding C ids cb msg (the (bt_get (pairwise_keys kp) j)))
          (filter (\<lambda>j. j \<noteq> key_identifier kp) ids))))"
proof -
  let ?i = "key_identifier kp"
  let ?f = "\<lambda>blind j. if j = ?i then Ok blind
           else and_then (ok_or (bt_get (pairwise_keys kp) j) (MissingPairwiseKey j)) (\<lambda>k_ij.
                  let B_ij = pair_blinding C ids cb msg k_ij
                  in if ?i > j then Ok (blind + B_ij) else Ok (blind - B_ij))"
  have "try_fold ?f acc js =
     (case find (\<lambda>j. j \<noteq> ?i \<and> bt_get (pairwise_keys kp) j = None) js of
        Some j \<Rightarrow> Err (MissingPairwiseKey j)
      | None \<Rightarrow> Ok (acc + sum_list (map (\<lambda>j. delta ?i j *
          pair_blinding C ids cb msg (the (bt_get (pairwise_keys kp) j)))
          (filter (\<lambda>j. j \<noteq> ?i) js))))" for js acc
  proof (induction js arbitrary: acc)
    case (Cons j js)
    then show ?case
      by (cases "bt_get (pairwise_keys kp) j")
        (auto simp: Let_def delta_def algebra_simps split: option.splits)
  qed simp
  from this [of 0 ids] show ?thesis
    by (simp only: blinding_scalar_def pair_blinding_def [symmetric] Let_def add_0)
qed

lemma blinding_scalar_no_panic: "blinding_scalar C kp ids cb msg \<noteq> Panic"
  by (simp add: blinding_scalar_eq split: option.splits)

lemma sum_commitments_eq:
  "sum_commitments cs = (sum_list (map comm_D (bt_values cs)), sum_list (map comm_E (bt_values cs)))"
proof -
  have "foldl (\<lambda>(D, E) c. (D + comm_D c, E + comm_E c)) (d, e) xs =
      (d + sum_list (map comm_D xs), e + sum_list (map comm_E xs))" for d e and xs :: "'a SigningCommitments list"
    by (induction xs arbitrary: d e) (auto simp: add.assoc)
  then show ?thesis by (simp add: sum_commitments_def)
qed

definition package_binding ::
  "('s, 'p, 'h) ciphersuite \<Rightarrow> 'p SigningPackage \<Rightarrow> 'p PublicKeyPackage \<Rightarrow> 's" where
  "package_binding C sp pubs =
     binding_factor C (verifying_key pubs) (encode_signer_set (bt_keys (signing_commitments sp)))
       (message sp) (encode_commitments C (signing_commitments sp))"

definition package_nonce ::
  "('s, 'p :: ab_group_add, 'h) ciphersuite \<Rightarrow> 'p SigningPackage \<Rightarrow> 'p PublicKeyPackage \<Rightarrow> 'p" where
  "package_nonce C sp pubs =
     (let (D, E) = sum_commitments (signing_commitments sp)
      in D + point_mul C E (package_binding C sp pubs))"

definition package_challenge ::
  "('s, 'p :: ab_group_add, 'h) ciphersuite \<Rightarrow> 'p SigningPackage \<Rightarrow> 'p PublicKeyPackage \<Rightarrow> 's option" where
  "package_challenge C sp pubs =
     challenge C (verifying_key pubs) (package_nonce C sp pubs) (message sp)"

text \<open>The nonce whose point an honest package determines.\<close>

definition session_nonce ::
  "('s :: field, 'p, 'h) ciphersuite \<Rightarrow> (Identifier, 's SigningNonces) btree_map \<Rightarrow> 'p SigningPackage \<Rightarrow>
   'p PublicKeyPackage \<Rightarrow> 's" where
  "session_nonce C N sp pubs =
     sum_list (map (\<lambda>i. nonce_d (the (bt_get N i)) + package_binding C sp pubs * nonce_e (the (bt_get N i)))
       (bt_keys (signing_commitments sp)))"

definition nonce_matches ::
  "('s, 'p, 'h) ciphersuite \<Rightarrow> 's SigningNonces \<Rightarrow> 'p SigningCommitments \<Rightarrow> bool" where
  "nonce_matches C n sc \<longleftrightarrow> comm_D sc = mul_generator C (nonce_d n) \<and> comm_E sc = mul_generator C (nonce_e n)"

lemma sign_eq:
  "sign C sp n kp pubs =
     (let i = key_identifier kp; ids = bt_keys (signing_commitments sp) in
      case bt_get (signing_commitments sp) i of
        None \<Rightarrow> Err (UnknownSigner i)
      | Some sc \<Rightarrow>
          if \<not> nonce_matches C n sc then Err (NonceCommitmentMismatch i)
          else and_then (unwrap (package_challenge C sp pubs)) (\<lambda>c.
               and_then (unwrap (lagrange i ids)) (\<lambda>l.
               and_then (blinding_scalar C kp ids (encode_commitments C (signing_commitments sp)) (message sp)) (\<lambda>blind.
                 Ok (SignatureShare_new C i (package_nonce C sp pubs)
                   (nonce_d n + package_binding C sp pubs * nonce_e n)
                   (c * l * signing_share kp + blind))))))"
  by (auto simp: sign_def Let_def package_challenge_def package_nonce_def package_binding_def
      nonce_matches_def split: option.splits prod.splits)

lemma aggregate_loop:
  "try_fold (\<lambda>(z, R_opt) share.
      let z = z + share_z share
      in case R_opt of
           Some R \<Rightarrow> if R \<noteq> share_R share then Err InconsistentAggregateNonce else Ok (z, Some R)
         | None \<Rightarrow> Ok (z, Some (share_R share)))
     (z0 :: 's :: field, Some R0) shares =
   (if \<forall>sh\<in>set shares. share_R sh = R0
    then Ok (z0 + sum_list (map share_z shares), Some R0)
    else Err InconsistentAggregateNonce)"
  by (induction shares arbitrary: z0) (auto simp: Let_def add.assoc)

lemma aggregate_eq:
  "aggregate sp shares =
     (if bt_len (signing_commitments sp) \<noteq> bt_len shares
      then Err (ShareCountMismatch (bt_len (signing_commitments sp)) (bt_len shares))
      else case bt_values shares of
        [] \<Rightarrow> Err NoSignatureShares
      | sh # shs \<Rightarrow>
          if \<forall>sh'\<in>set shs. share_R sh' = share_R sh
          then Ok \<lparr> sig_R = share_R sh, sig_z = sum_list (map share_z (sh # shs)) \<rparr>
          else Err InconsistentAggregateNonce)"
proof (cases "bt_values shares")
  case (Cons sh shs)
  then show ?thesis
    using aggregate_loop [of "share_z sh" "share_R sh" shs]
    by (simp add: aggregate_def Let_def)
qed (simp add: aggregate_def Let_def)

section \<open>One honest signer\<close>

text \<open>The sum of a signer's blinding values, positive for smaller peers.\<close>

definition blinding_sum ::
  "('s :: field, 'p, 'h) ciphersuite \<Rightarrow> 'p SigningPackage \<Rightarrow> 's KeyPackage \<Rightarrow> 's" where
  "blinding_sum C sp kp =
     (\<Sum>j\<in>set (bt_keys (signing_commitments sp)) - {key_identifier kp}.
        delta (key_identifier kp) j *
        pair_blinding C (bt_keys (signing_commitments sp))
          (encode_commitments C (signing_commitments sp)) (message sp)
          (the (bt_get (pairwise_keys kp) j)))"

lemma blinding_scalar_Ok:
  assumes "\<And>j. bt_contains_key (signing_commitments sp) j \<Longrightarrow> j \<noteq> key_identifier kp \<Longrightarrow>
    bt_contains_key (pairwise_keys kp) j"
  shows "blinding_scalar C kp (bt_keys (signing_commitments sp))
     (encode_commitments C (signing_commitments sp)) (message sp) = Ok (blinding_sum C sp kp)"
proof -
  have "find (\<lambda>j. j \<noteq> key_identifier kp \<and> bt_get (pairwise_keys kp) j = None)
      (bt_keys (signing_commitments sp)) = None"
    using assms by (auto simp: find_None_iff bt_contains_key_def)
  moreover have "set (filter (\<lambda>j. j \<noteq> key_identifier kp) ks) = set ks - {key_identifier kp}" for ks
    by auto
  ultimately show ?thesis
    by (simp add: blinding_scalar_eq blinding_sum_def sum_list_distinct_conv_sum_set
        del: set_filter)
qed

text \<open>The response of a signer whose commitment is in the package, in closed form.\<close>

context suite_contract
begin

definition share_response where
  "share_response sp pubs n kp c =
     c * lag (set (bt_keys (signing_commitments sp))) scalar_from (key_identifier kp) * signing_share kp
     + blinding_sum C sp kp
     + share_sign C (package_nonce C sp pubs) * (nonce_d n + package_binding C sp pubs * nonce_e n)"

lemma sign_Ok:
  assumes "bt_get (signing_commitments sp) (key_identifier kp) = Some sc" "nonce_matches C n sc"
    and "package_challenge C sp pubs = Some c"
    and "\<And>j. bt_contains_key (signing_commitments sp) j \<Longrightarrow> j \<noteq> key_identifier kp \<Longrightarrow>
      bt_contains_key (pairwise_keys kp) j"
  shows "sign C sp n kp pubs = Ok \<lparr> share_identifier = key_identifier kp,
     share_R = fst (normalize_share_r C (package_nonce C sp pubs) 1),
     share_z = share_response sp pubs n kp c \<rparr>"
proof -
  have new: "SignatureShare_new C i R k z = \<lparr> share_identifier = i,
      share_R = fst (normalize_share_r C R 1), share_z = z + share_sign C R * k \<rparr>" for i R k z
    using normalize_share_r_fst [of R k 1] normalize_share_r_scalar [of R k]
    by (simp add: SignatureShare_new_def case_prod_unfold)
  show ?thesis
    using assms(1-3) blinding_scalar_Ok [of sp kp C, OF assms(4)]
    by (simp add: sign_eq Let_def new share_response_def lagrange_total)
qed

end

section \<open>A round of honest signers\<close>

text \<open>Every commitment of the package is the one that \<open>commit\<close> made for the nonce in \<open>N\<close>.\<close>

definition honest_package ::
  "('s, 'p, 'h) ciphersuite \<Rightarrow> (Identifier, 's SigningNonces) btree_map \<Rightarrow> 'p SigningPackage \<Rightarrow> bool" where
  "honest_package C N sp \<longleftrightarrow> (\<forall>i. bt_get (signing_commitments sp) i =
     map_option (\<lambda>n. \<lparr> comm_D = mul_generator C (nonce_d n), comm_E = mul_generator C (nonce_e n) \<rparr>)
       (bt_get N i))"

text \<open>Every signer of the package was dealt a share.\<close>

definition dealt_signers :: "'p SigningPackage \<Rightarrow> 's KeyShares \<Rightarrow> bool" where
  "dealt_signers sp shares \<longleftrightarrow>
     (\<forall>i. bt_contains_key (signing_commitments sp) i \<longrightarrow> bt_contains_key shares i)"

text \<open>The shares the signers of the package return.\<close>

definition shares_of ::
  "('s :: field, 'p :: ab_group_add, 'h) ciphersuite \<Rightarrow> 'p SigningPackage \<Rightarrow>
   (Identifier, 's SigningNonces) btree_map \<Rightarrow> 's KeyShares \<Rightarrow> 'p PublicKeyPackage \<Rightarrow>
   (Identifier, ('s, 'p) SignatureShare) btree_map \<Rightarrow> bool" where
  "shares_of C sp N shares pubs out \<longleftrightarrow>
     (\<forall>i. bt_contains_key out i \<longleftrightarrow> bt_contains_key (signing_commitments sp) i) \<and>
     (\<forall>i sh. bt_get out i = Some sh \<longrightarrow>
        sign C sp (the (bt_get N i)) (the (bt_get shares i)) pubs = Ok sh)"

lemma bt_keys_cong:
  "(\<And>i. bt_contains_key m i \<longleftrightarrow> bt_contains_key n i) \<Longrightarrow> bt_keys m = bt_keys n"
  by (rule bt_keys_unique) simp_all

context suite_contract
begin

lemma package_nonce_honest:
  assumes "honest_package C N sp"
  shows "package_nonce C sp pubs = point_mul C (generator C) (session_nonce C N sp pubs)"
proof -
  let ?ks = "bt_keys (signing_commitments sp)"
  have "the (bt_get (signing_commitments sp) i) =
      \<lparr> comm_D = point_mul C (generator C) (nonce_d (the (bt_get N i))),
        comm_E = point_mul C (generator C) (nonce_e (the (bt_get N i))) \<rparr>"
    if "i \<in> set ?ks" for i
    using assms that
    by (auto simp: honest_package_def bt_contains_key_def mul_generator_eq)
  then have "map comm_D (bt_values (signing_commitments sp)) =
      map (\<lambda>i. point_mul C (generator C) (nonce_d (the (bt_get N i)))) ?ks"
    "map comm_E (bt_values (signing_commitments sp)) =
      map (\<lambda>i. point_mul C (generator C) (nonce_e (the (bt_get N i)))) ?ks"
    by (auto simp: bt_values_conv)
  then show ?thesis
    by (simp add: package_nonce_def session_nonce_def sum_commitments_eq gen_calc sum_list_map_add
        sum_list_map_mult mult.commute)
qed

lemma pairwise_keys_valid:
  assumes "secret_shares coeffs t shares" "dealt_signers sp shares"
    and "bt_get shares i = Some kp" "bt_contains_key (signing_commitments sp) j" "j \<noteq> i"
  shows "bt_contains_key (pairwise_keys kp) j"
proof -
  have "pair_key shares i j \<noteq> None"
    using assms by (simp add: secret_shares_def dealt_signers_def bt_contains_key_def)
  with assms(3) show ?thesis by (auto simp: pair_key_def bt_contains_key_def)
qed

lemma dealt_sign_Ok:
  assumes keys: "secret_shares coeffs t shares" and dealt: "dealt_signers sp shares"
    and hon: "honest_package C N sp" and c: "package_challenge C sp pubs = Some c"
    and i: "bt_contains_key (signing_commitments sp) i"
  shows "sign C sp (the (bt_get N i)) (the (bt_get shares i)) pubs =
    Ok \<lparr> share_identifier = i, share_R = fst (normalize_share_r C (package_nonce C sp pubs) 1),
         share_z = share_response sp pubs (the (bt_get N i)) (the (bt_get shares i)) c \<rparr>"
proof -
  have "bt_contains_key shares i" using dealt i by (simp add: dealt_signers_def)
  with keys obtain kp where kp: "bt_get shares i = Some kp" "key_identifier kp = i"
    by (rule secret_shares_get)
  obtain n where "bt_get N i = Some n"
    and "bt_get (signing_commitments sp) i = Some
      \<lparr> comm_D = mul_generator C (nonce_d n), comm_E = mul_generator C (nonce_e n) \<rparr>"
    using hon i by (auto simp: honest_package_def bt_contains_key_def)
  then show ?thesis
    using sign_Ok [of sp kp "\<lparr> comm_D = mul_generator C (nonce_d n),
        comm_E = mul_generator C (nonce_e n) \<rparr>" n pubs c]
      c kp pairwise_keys_valid [OF keys dealt kp(1)]
    by (simp add: nonce_matches_def)
qed

lemma blinding_cancels:
  assumes keys: "secret_shares coeffs t shares" and dealt: "dealt_signers sp shares"
  shows "sum_list (map (\<lambda>i. blinding_sum C sp (the (bt_get shares i)))
    (bt_keys (signing_commitments sp))) = 0"
proof -
  let ?ks = "bt_keys (signing_commitments sp)"
  let ?B = "\<lambda>i j. pair_blinding C ?ks (encode_commitments C (signing_commitments sp)) (message sp)
    (the (pair_key shares i j))"
  have "blinding_sum C sp (the (bt_get shares i)) = (\<Sum>j\<in>set ?ks - {i}. delta i j * ?B i j)"
    if "i \<in> set ?ks" for i
  proof -
    have "bt_contains_key shares i" using that dealt by (simp add: dealt_signers_def)
    with keys obtain kp where "bt_get shares i = Some kp" "key_identifier kp = i"
      by (rule secret_shares_get)
    then show ?thesis by (simp add: blinding_sum_def pair_key_def)
  qed
  then have "sum_list (map (\<lambda>i. blinding_sum C sp (the (bt_get shares i))) ?ks) =
      (\<Sum>i\<in>set ?ks. \<Sum>j\<in>set ?ks - {i}. delta i j * ?B i j)"
    by (simp add: sum_list_distinct_conv_sum_set del: bt_keys_mem cong: sum.cong)
  also have "\<dots> = 0"
    using keys by (intro pairwise_cancel) (simp_all add: secret_shares_def)
  finally show ?thesis .
qed

text \<open>The responses of all signers add up to a Schnorr response for the normalised nonce.\<close>

lemma response_sum:
  assumes keys: "secret_shares coeffs t shares" and dealt: "dealt_signers sp shares"
    and hon: "honest_package C N sp"
    and quorum: "t \<le> bt_len (signing_commitments sp)"
    and ne: "0 < bt_len (signing_commitments sp)"
  shows "sum_list (map (\<lambda>i. share_response sp pubs (the (bt_get N i)) (the (bt_get shares i)) c)
      (bt_keys (signing_commitments sp))) =
    c * hd coeffs + share_sign C (package_nonce C sp pubs) * session_nonce C N sp pubs"
proof -
  let ?ks = "bt_keys (signing_commitments sp)"
  have dealt': "bt_contains_key shares i" if "i \<in> set ?ks" for i
    using that dealt by (simp add: dealt_signers_def)
  have "?ks \<noteq> []" using ne by (metis length_bt_keys less_irrefl list.size(3))
  then have shamir: "sum_list (map (\<lambda>i. lag (set ?ks) scalar_from i * signing_share (the (bt_get shares i))) ?ks) = hd coeffs"
    using quorum_sum [OF keys distinct_bt_keys _ _ dealt'] quorum by simp
  have ident: "key_identifier (the (bt_get shares i)) = i" if "i \<in> set ?ks" for i
    using dealt' [OF that] keys by (auto simp: bt_contains_key_def secret_shares_def)
  have "map (\<lambda>i. share_response sp pubs (the (bt_get N i)) (the (bt_get shares i)) c) ?ks =
      map (\<lambda>i. (c * (lag (set ?ks) scalar_from i * signing_share (the (bt_get shares i)))
        + blinding_sum C sp (the (bt_get shares i)))
        + share_sign C (package_nonce C sp pubs) *
          (nonce_d (the (bt_get N i)) + package_binding C sp pubs * nonce_e (the (bt_get N i)))) ?ks"
    using ident by (simp add: share_response_def mult.assoc del: bt_keys_mem)
  then show ?thesis
    by (simp only: sum_list_map_add sum_list_map_mult shamir blinding_cancels [OF keys dealt] add_0_right
        session_nonce_def)
qed

lemma dealt_shares_exist:
  assumes "secret_shares coeffs t shares" "dealt_signers sp shares" "honest_package C N sp"
    "package_challenge C sp pubs = Some c"
  shows "\<exists>out. shares_of C sp N shares pubs out"
proof -
  let ?ks = "bt_keys (signing_commitments sp)"
  have "shares_of C sp N shares pubs (bt_of_list ?ks (\<lambda>i.
      \<lparr> share_identifier = i, share_R = fst (normalize_share_r C (package_nonce C sp pubs) 1),
        share_z = share_response sp pubs (the (bt_get N i)) (the (bt_get shares i)) c \<rparr>))"
    by (auto simp: shares_of_def bt_contains_key_def [of "bt_of_list _ _"] dealt_sign_Ok [OF assms]
        split: if_splits)
  then show ?thesis by blast
qed

lemma dealt_aggregate:
  assumes keys: "secret_shares coeffs t shares" and dealt: "dealt_signers sp shares"
    and hon: "honest_package C N sp"
    and quorum: "t \<le> bt_len (signing_commitments sp)"
    and ne: "0 < bt_len (signing_commitments sp)"
    and c: "package_challenge C sp pubs = Some c"
    and out: "shares_of C sp N shares pubs out"
  shows "package_nonce C sp pubs = point_mul C (generator C) (session_nonce C N sp pubs) \<and>
    aggregate sp out = Ok \<lparr> sig_R = fst (normalize_share_r C (package_nonce C sp pubs) 1),
      sig_z = c * hd coeffs + share_sign C (package_nonce C sp pubs) * session_nonce C N sp pubs \<rparr>"
proof -
  let ?ks = "bt_keys (signing_commitments sp)"
  let ?R = "fst (normalize_share_r C (package_nonce C sp pubs) 1)"
  let ?z = "\<lambda>i. share_response sp pubs (the (bt_get N i)) (the (bt_get shares i)) c"
  have keys_out: "bt_keys out = ?ks"
    using out by (intro bt_keys_cong) (simp add: shares_of_def)
  have entry: "the (bt_get out i) = \<lparr> share_identifier = i, share_R = ?R, share_z = ?z i \<rparr>"
    if "i \<in> set ?ks" for i
  proof -
    have i: "bt_contains_key (signing_commitments sp) i" using that by simp
    then have "bt_contains_key out i" using out by (simp add: shares_of_def)
    then obtain sh where "bt_get out i = Some sh" by (rule bt_contains_keyE)
    then show ?thesis
      using out dealt_sign_Ok [OF keys dealt hon c i] by (simp add: shares_of_def)
  qed
  have vals: "bt_values out = map (\<lambda>i. \<lparr> share_identifier = i, share_R = ?R, share_z = ?z i \<rparr>) ?ks"
    using entry by (simp add: bt_values_conv keys_out del: bt_keys_mem)
  have len: "bt_len out = bt_len (signing_commitments sp)"
    by (metis keys_out length_bt_keys)
  obtain k ks where ks: "?ks = k # ks"
    using ne by (metis length_bt_keys length_greater_0_conv neq_Nil_conv)
  have agg: "aggregate sp out = Ok \<lparr> sig_R = ?R, sig_z = sum_list (map ?z ?ks) \<rparr>"
    by (simp add: aggregate_eq len vals ks comp_def)
  from agg response_sum [OF keys dealt hon quorum ne, where c = c and pubs = pubs]
    package_nonce_honest [OF hon, of pubs]
  show ?thesis by simp
qed

text \<open>The same for the output of the dealer, where the aggregate verifies under the group key.\<close>

lemmas honest_sign_Ok = dealt_sign_Ok [OF valid_keys_secret]
lemmas shares_exist = dealt_shares_exist [OF valid_keys_secret]

lemma honest_round:
  assumes keys: "valid_keys C coeffs shares pubs" and dealt: "dealt_signers sp shares"
    and hon: "honest_package C N sp"
    and quorum: "unat (min_signers pubs) \<le> bt_len (signing_commitments sp)"
    and ne: "0 < bt_len (signing_commitments sp)"
    and c: "package_challenge C sp pubs = Some c"
    and out: "shares_of C sp N shares pubs out"
  shows "\<exists>sg. aggregate sp out = Ok sg \<and> verify C sg (message sp) pubs = Some True"
proof -
  let ?R = "fst (normalize_share_r C (package_nonce C sp pubs) 1)"
  obtain r where r: "package_nonce C sp pubs = point_mul C (generator C) r"
    and agg: "aggregate sp out = Ok \<lparr> sig_R = ?R,
      sig_z = c * hd coeffs + share_sign C (package_nonce C sp pubs) * r \<rparr>"
    using dealt_aggregate [OF valid_keys_secret [OF keys] dealt hon quorum ne c out] by blast
  have chal: "challenge C (verifying_key pubs) ?R (message sp) = Some c"
    using c by (simp add: challenge_normalized package_challenge_def)
  have "point_mul C (generator C) (c * hd coeffs + share_sign C (package_nonce C sp pubs) * r) =
      ?R + point_mul C (verifying_key pubs) c"
    using keys unfolding normalize_share_r_point [OF r]
    by (simp add: valid_keys_def gen_calc add.commute mult.commute)
  then have "verify C \<lparr> sig_R = ?R, sig_z = c * hd coeffs + share_sign C (package_nonce C sp pubs) * r \<rparr>
      (message sp) pubs = Some True"
    by (simp add: verify_def accept_normalized chal mul_generator_eq)
  with agg show ?thesis by blast
qed

end

section \<open>Replacing one share\<close>

lemma bt_keys_insert_present:
  "bt_contains_key m i \<Longrightarrow> bt_keys (bt_insert i v m) = bt_keys m"
  by (intro bt_keys_cong) (auto simp: bt_contains_key_def)

lemma bt_values_insert_present:
  assumes "bt_contains_key m i"
  shows "bt_values (bt_insert i v m) = map (\<lambda>k. if k = i then v else the (bt_get m k)) (bt_keys m)"
  using assms by (simp add: bt_values_conv bt_keys_insert_present)

lemma aggregate_Ok_iff:
  "aggregate sp shares = Ok sg \<longleftrightarrow>
     bt_len shares = bt_len (signing_commitments sp) \<and> 0 < bt_len shares \<and>
     (\<forall>sh\<in>set (bt_values shares). share_R sh = sig_R sg) \<and>
     sig_z sg = sum_list (map share_z (bt_values shares))"
proof -
  have "bt_len shares = length (bt_values shares)" by (simp add: bt_len_def bt_values_def)
  then show ?thesis
    by (cases sg; cases "bt_values shares") (auto simp: aggregate_eq split: if_splits)
qed

lemma sum_list_replace:
  fixes f :: "'a \<Rightarrow> 's :: ab_group_add"
  assumes "distinct ks" "i \<in> set ks"
  shows "sum_list (map (\<lambda>k. if k = i then a else f k) ks) = sum_list (map f ks) + (a - f i)"
proof -
  have "sum_list (map (\<lambda>k. if k = i then a else f k) ks) = (\<Sum>k\<in>set ks. if k = i then a else f k)"
    using assms(1) by (rule sum_list_distinct_conv_sum_set)
  also have "\<dots> = a + (\<Sum>k\<in>set ks - {i}. f k)"
    using assms(2) by (subst sum.remove [of _ i]) auto
  also have "(\<Sum>k\<in>set ks - {i}. f k) = (\<Sum>k\<in>set ks. f k) - f i"
    using assms(2) by (simp add: sum.remove [of _ i] algebra_simps)
  finally show ?thesis
    using assms(1) by (simp add: sum_list_distinct_conv_sum_set algebra_simps)
qed

lemma aggregate_replace:
  assumes "aggregate sp out = Ok sg" "bt_get out i = Some sh" "share_z bad \<noteq> share_z sh"
    "share_R bad = share_R sh"
  shows "\<exists>sg'. aggregate sp (bt_insert i bad out) = Ok sg' \<and> sig_R sg' = sig_R sg \<and> sig_z sg' \<noteq> sig_z sg"
proof -
  have i: "bt_contains_key out i" "i \<in> set (bt_keys out)"
    using assms(2) by (simp_all add: bt_contains_key_def)
  note agg = assms(1) [unfolded aggregate_Ok_iff]
  have len: "bt_len (bt_insert i bad out) = bt_len out"
    by (metis bt_keys_insert_present i(1) length_bt_keys)
  have "the (bt_get out i) \<in> set (bt_values out)" using i(2) by (simp add: bt_values_conv)
  then have R: "\<forall>s\<in>set (bt_values (bt_insert i bad out)). share_R s = sig_R sg"
    using agg assms(2,4) unfolding bt_values_insert_present [OF i(1)]
    by (auto simp: bt_values_conv)
  have "sum_list (map share_z (bt_values (bt_insert i bad out))) =
      sum_list (map share_z (bt_values out)) + (share_z bad - share_z sh)"
    using sum_list_replace [OF distinct_bt_keys i(2), of "share_z bad" "\<lambda>k. share_z (the (bt_get out k))"]
      assms(2)
    unfolding bt_values_insert_present [OF i(1)]
    by (simp add: bt_values_conv comp_def if_distrib)
  with assms(3) agg R len show ?thesis
    by (intro exI [of _ "\<lparr> sig_R = sig_R sg,
          sig_z = sum_list (map share_z (bt_values (bt_insert i bad out))) \<rparr>"])
      (auto simp: aggregate_Ok_iff)
qed

section \<open>Witness material\<close>

text \<open>Signers 1 and 3 of the sample dealer's three, with fixed nonces.\<close>

definition sample_nonces :: "(Identifier, gf SigningNonces) btree_map" where
  "sample_nonces = bt_of_list [1, 3] (\<lambda>i. \<lparr> nonce_d = of_nat (unat i + 4), nonce_e = 9 \<rparr>)"

definition sample_package :: "gf SigningPackage" where
  "sample_package = \<lparr> message = replicate 32 7,
     signing_commitments = bt_of_list [1, 3] (\<lambda>i. \<lparr> comm_D = of_nat (unat i + 4), comm_E = 9 \<rparr>),
     pkg_partial_verification_keys = bt_empty \<rparr>"

definition sample_kp :: "gf KeyPackage" where
  "sample_kp = \<lparr> key_identifier = 1, signing_share = 5, signing_share_blinding = 6,
     pairwise_keys = bt_of_list [3] (\<lambda>_. replicate 32 8) \<rparr>"

definition sample_pubs :: "gf PublicKeyPackage" where
  "sample_pubs = \<lparr> verifying_key = 11, max_signers = 3, min_signers = 2, pedersen_h = 7,
     partial_verification_keys = bt_of_list [1] (\<lambda>_. \<lparr> signing_share_commitment =
        pedersen_commit sample_plain 5 6 7, pairwise_key_commitments = bt_empty \<rparr>) \<rparr>"

lemma sample_package_keys: "bt_keys (signing_commitments sample_package) = [1, 3]"
  by (simp add: sample_package_def bt_keys_of_list)

lemma sample_package_len: "bt_len (signing_commitments sample_package) = 2"
  using sample_package_keys length_bt_keys [of "signing_commitments sample_package"] by simp

lemma sample_package_honest: "honest_package sample_plain sample_nonces sample_package"
  by (simp add: honest_package_def sample_nonces_def sample_package_def secp256k1_plain_def
      default_mul_generator_def sample_k256_def)

lemma sample_challenge: "\<exists>c. package_challenge sample_plain sp pubs = Some c"
  by (simp add: package_challenge_def secp256k1_plain_def plain_challenge_def)

lemma sample_keys:
  obtains shares pubs rng' where
    "generate_with_dealer_from_secret sample_plain sample_rng True 5 3 2 0 = Some (shares, pubs, rng')"
    "dealt_signers sample_package shares" "min_signers pubs = 2"
proof -
  have "pedersen_generator sample_plain \<noteq> None"
    by (simp add: secp256k1_plain_def sample_k256_def secp_pedersen_generator_def gf_calc)
  then obtain shares pubs rng' where
    gen: "generate_with_dealer_from_secret sample_plain sample_rng True 5 3 2 0 = Some (shares, pubs, rng')"
    using dealer_returns [of 2 3 sample_plain sample_rng True 5 0] by auto
  from dealer_valid [OF sample_plain_contract this]
  have "min_signers pubs = 2" "bt_contains_key shares 1" "bt_contains_key shares 3"
    by (auto simp: valid_keys_def)
  moreover from this have "dealt_signers sample_package shares"
    by (auto simp: dealt_signers_def sample_package_def bt_contains_key_def split: if_splits)
  ultimately show thesis using gen that by blast
qed

section \<open>The properties\<close>

lemma verify_unique_response:
  assumes "suite_contract C"
    and "verify C sg msg pubs = Some True" "verify C sg' msg pubs = Some True" "sig_R sg = sig_R sg'"
  shows "sig_z sg = sig_z sg'"
proof -
  have "point_mul C (generator C) (sig_z sg) = point_mul C (generator C) (sig_z sg')"
    using assms(2-) suite_contract.mul_generator_eq [OF assms(1)]
    by (auto simp: verify_def bind_eq_Some_conv split: if_splits)
  then show ?thesis
    using prime_subgroup.gen_eq_iff [OF suite_contract.axioms(1) [OF assms(1)]] by blast
qed

text \<open>
  (C1) Correctness of the threshold signature: for keys of the dealer and a package in which
  every signer was dealt a share and published the commitment to its own nonce, with at
  least \<open>min_signers\<close> (and at least one) signers and a challenge that does not panic, every
  signer's \<open>sign\<close> returns a share, and the aggregate of these shares verifies under the
  group key, for every ciphersuite.
\<close>

theorem honest_signing_verifies:
  assumes "suite_contract C"
    and "generate_with_dealer_from_secret C G ovf sk n_max n_min rng = Some (shares, pubs, rng')"
    and "dealt_signers sp shares" "honest_package C N sp"
    and "unat n_min \<le> bt_len (signing_commitments sp)" "0 < bt_len (signing_commitments sp)"
    and "package_challenge C sp pubs = Some c"
  shows "(\<forall>i. bt_contains_key (signing_commitments sp) i \<longrightarrow>
      is_ok (sign C sp (the (bt_get N i)) (the (bt_get shares i)) pubs)) \<and>
    (\<forall>out. shares_of C sp N shares pubs out \<longrightarrow>
      (\<exists>sg. aggregate sp out = Ok sg \<and> verify C sg (message sp) pubs = Some True))"
proof -
  obtain coeffs where keys: "valid_keys C coeffs shares pubs" "min_signers pubs = n_min"
    using dealer_valid [OF assms(1,2)] by blast
  note sign = suite_contract.honest_sign_Ok [OF assms(1) keys(1) assms(3,4,7)]
  note round = suite_contract.honest_round [OF assms(1) keys(1) assms(3,4) _ assms(6,7)]
  show ?thesis
    using assms(5) keys(2) round by (simp add: sign)
qed

lemma honest_signing_verifies_witness:
  "\<exists>shares pubs rng'.
     generate_with_dealer_from_secret sample_plain sample_rng True 5 3 2 0 = Some (shares, pubs, rng') \<and>
     is_ok (sign sample_plain sample_package (the (bt_get sample_nonces 3)) (the (bt_get shares 3)) pubs)"
proof -
  obtain shares pubs rng' where
    gen: "generate_with_dealer_from_secret sample_plain sample_rng True 5 3 2 0 = Some (shares, pubs, rng')"
    and dealt: "dealt_signers sample_package shares"
    by (rule sample_keys)
  obtain c where "package_challenge sample_plain sample_package pubs = Some c"
    using sample_challenge by blast
  from honest_signing_verifies [OF sample_plain_contract gen dealt sample_package_honest _ _ this] gen
  show ?thesis
    by (auto simp: sample_package_len sample_package_keys bt_keys_mem [symmetric] simp del: bt_keys_mem)
qed

text \<open>
  (C4) A tampered share is caught: if one honest share's response is changed while its \<open>R\<close>
  is kept, aggregation still succeeds but the aggregate does not verify.
\<close>

theorem tampered_share_rejected:
  assumes "suite_contract C"
    and "generate_with_dealer_from_secret C G ovf sk n_max n_min rng = Some (shares, pubs, rng')"
    and "dealt_signers sp shares" "honest_package C N sp"
    and "unat n_min \<le> bt_len (signing_commitments sp)" "0 < bt_len (signing_commitments sp)"
    and "package_challenge C sp pubs = Some c"
    and "shares_of C sp N shares pubs out" "bt_get out i = Some sh" "share_z bad \<noteq> share_z sh"
    and "share_R bad = share_R sh"
  shows "\<exists>sg. aggregate sp (bt_insert i bad out) = Ok sg \<and> verify C sg (message sp) pubs = Some False"
proof -
  obtain coeffs where keys: "valid_keys C coeffs shares pubs" "min_signers pubs = n_min"
    using dealer_valid [OF assms(1,2)] by blast
  obtain sg where sg: "aggregate sp out = Ok sg" "verify C sg (message sp) pubs = Some True"
    using suite_contract.honest_round [OF assms(1) keys(1) assms(3,4) _ assms(6,7,8)] assms(5) keys(2)
    by auto
  obtain sg' where sg': "aggregate sp (bt_insert i bad out) = Ok sg'" "sig_R sg' = sig_R sg"
    "sig_z sg' \<noteq> sig_z sg"
    using aggregate_replace [OF sg(1) assms(9-11)] by blast
  have "verify C sg' (message sp) pubs \<noteq> Some True"
    using verify_unique_response [OF assms(1) sg(2)] sg' by fastforce
  moreover have "verify C sg' (message sp) pubs \<noteq> None"
    using sg(2) sg'(2) by (auto simp: verify_def bind_eq_Some_conv split: if_splits)
  ultimately show ?thesis using sg'(1) by (cases "verify C sg' (message sp) pubs") auto
qed

lemma tampered_share_rejected_witness:
  "\<exists>pubs out sg.
     aggregate sample_package (bt_insert 3 \<lparr> share_identifier = 3, share_R = share_R (the (bt_get out 3)),
       share_z = share_z (the (bt_get out 3)) + 1 \<rparr> out) = Ok sg \<and>
     verify sample_plain sg (message sample_package) (pubs :: gf PublicKeyPackage) = Some False"
proof -
  obtain shares pubs rng' where
    gen: "generate_with_dealer_from_secret sample_plain sample_rng True 5 3 2 0 = Some (shares, pubs, rng')"
    and dealt: "dealt_signers sample_package shares"
    by (rule sample_keys)
  obtain c where c: "package_challenge sample_plain sample_package pubs = Some c"
    using sample_challenge by blast
  obtain coeffs where keys: "valid_keys sample_plain coeffs shares pubs"
    using dealer_valid [OF sample_plain_contract gen] by blast
  obtain out where out: "shares_of sample_plain sample_package sample_nonces shares pubs out"
    and "bt_contains_key out 3"
    using suite_contract.shares_exist [OF sample_plain_contract keys dealt sample_package_honest c]
      sample_package_keys bt_keys_mem [of 3 "signing_commitments sample_package"]
    by (auto simp: shares_of_def simp del: bt_keys_mem)
  then obtain sh where "bt_get out 3 = Some sh" by (auto elim: bt_contains_keyE)
  with tampered_share_rejected [OF sample_plain_contract gen dealt sample_package_honest _ _ c out,
      of 3 sh "\<lparr> share_identifier = 3, share_R = share_R sh, share_z = share_z sh + 1 \<rparr>"]
  show ?thesis
    by (intro exI [of _ pubs] exI [of _ out]) (auto simp: sample_package_len)
qed

text \<open>
  (C13) Every way \<open>sign\<close> can end: it returns an error exactly when the signer is not in the
  package, when the published commitment is not the one of its nonces (so a signer never
  answers for a nonce it did not commit to), or for the first peer it shares no pairwise
  key with; it panics exactly when, past these checks, the challenge hash does.
\<close>

theorem sign_outcomes:
  assumes "suite_contract C"
  shows "(sign C sp n kp pubs = Err e \<longleftrightarrow>
      (case bt_get (signing_commitments sp) (key_identifier kp) of
         None \<Rightarrow> e = UnknownSigner (key_identifier kp)
       | Some sc \<Rightarrow>
           if \<not> nonce_matches C n sc then e = NonceCommitmentMismatch (key_identifier kp)
           else package_challenge C sp pubs \<noteq> None \<and>
             (\<exists>j. find (\<lambda>j. j \<noteq> key_identifier kp \<and> \<not> bt_contains_key (pairwise_keys kp) j)
                (bt_keys (signing_commitments sp)) = Some j \<and> e = MissingPairwiseKey j))) \<and>
    (sign C sp n kp pubs = Panic \<longleftrightarrow>
      package_challenge C sp pubs = None \<and>
      (\<exists>sc. bt_get (signing_commitments sp) (key_identifier kp) = Some sc \<and> nonce_matches C n sc))"
  by (auto simp: sign_eq Let_def suite_contract.lagrange_total [OF assms] blinding_scalar_eq
      bt_contains_key_def outcome_simps split: option.splits)

lemma sign_outcomes_witness:
  "sign sample_plain sample_package \<lparr> nonce_d = 1, nonce_e = 1 \<rparr>
     (sample_kp\<lparr> key_identifier := 2 \<rparr>) sample_pubs = Err (UnknownSigner 2) \<and>
   sign sample_plain sample_package \<lparr> nonce_d = 1, nonce_e = 1 \<rparr> sample_kp sample_pubs =
     Err (NonceCommitmentMismatch 1) \<and>
   sign sample_plain sample_package \<lparr> nonce_d = 5, nonce_e = 9 \<rparr>
     (sample_kp\<lparr> pairwise_keys := bt_empty \<rparr>) sample_pubs = Err (MissingPairwiseKey 3)"
  using sign_outcomes [OF sample_plain_contract, of sample_package "\<lparr> nonce_d = 1, nonce_e = 1 \<rparr>"
      "sample_kp\<lparr> key_identifier := 2 \<rparr>" sample_pubs]
    sign_outcomes [OF sample_plain_contract, of sample_package "\<lparr> nonce_d = 1, nonce_e = 1 \<rparr>"
      sample_kp sample_pubs]
    sign_outcomes [OF sample_plain_contract, of sample_package "\<lparr> nonce_d = 5, nonce_e = 9 \<rparr>"
      "sample_kp\<lparr> pairwise_keys := bt_empty \<rparr>" sample_pubs]
    sample_challenge [of sample_package sample_pubs] sample_package_keys
  by (auto simp: sample_package_def sample_kp_def nonce_matches_def secp256k1_plain_def
      default_mul_generator_def sample_k256_def gf_calc bt_contains_key_def)

text \<open>
  (C14) Every way \<open>aggregate\<close> can end, for any shares whatever: it never panics; it succeeds
  exactly when there are as many shares as commitments, at least one, and all carry the same
  \<open>R\<close>, and then returns that \<open>R\<close> and the sum of the responses; otherwise the error names the
  first of these conditions that fails.
\<close>

theorem aggregate_outcomes:
  "aggregate sp shares \<noteq> Panic \<and>
   (aggregate sp shares = Ok sg \<longleftrightarrow>
      bt_len shares = bt_len (signing_commitments sp) \<and> 0 < bt_len shares \<and>
      (\<forall>sh\<in>set (bt_values shares). share_R sh = sig_R sg) \<and>
      sig_z sg = sum_list (map share_z (bt_values shares))) \<and>
   (aggregate sp shares = Err e \<longleftrightarrow>
      (if bt_len shares \<noteq> bt_len (signing_commitments sp)
       then e = ShareCountMismatch (bt_len (signing_commitments sp)) (bt_len shares)
       else if bt_len shares = 0 then e = NoSignatureShares
       else (\<exists>sh\<in>set (bt_values shares). \<exists>sh'\<in>set (bt_values shares). share_R sh \<noteq> share_R sh') \<and>
            e = InconsistentAggregateNonce))"
proof -
  have "bt_len shares = length (bt_values shares)" by (simp add: bt_len_def bt_values_def)
  then show ?thesis
    unfolding aggregate_Ok_iff
    by (cases "bt_values shares") (auto simp: aggregate_eq)
qed

lemma aggregate_outcomes_witness:
  "aggregate sample_package (bt_of_list [1, 3] (\<lambda>i. \<lparr> share_identifier = i, share_R = 4, share_z = 6 \<rparr>)) =
     Ok \<lparr> sig_R = (4 :: gf), sig_z = (12 :: gf) \<rparr> \<and>
   aggregate sample_package (bt_of_list [1, 3] (\<lambda>i. \<lparr> share_identifier = i,
     share_R = of_nat (unat i), share_z = 6 \<rparr>)) \<noteq> Ok \<lparr> sig_R = (1 :: gf), sig_z = (12 :: gf) \<rparr>"
proof -
  have len: "bt_len (bt_of_list [1, 3 :: Identifier] f) = 2" for f :: "Identifier \<Rightarrow> (gf, gf) SignatureShare"
    using length_bt_keys [of "bt_of_list [1, 3] f"] by (simp add: bt_keys_of_list)
  show ?thesis
    using aggregate_outcomes [of sample_package
        "bt_of_list [1, 3] (\<lambda>i. \<lparr> share_identifier = i, share_R = 4, share_z = 6 \<rparr>)"
        "\<lparr> sig_R = (4 :: gf), sig_z = (12 :: gf) \<rparr>"]
      aggregate_outcomes [of sample_package "bt_of_list [1, 3] (\<lambda>i. \<lparr> share_identifier = i,
        share_R = of_nat (unat i), share_z = 6 \<rparr>)" "\<lparr> sig_R = (1 :: gf), sig_z = (12 :: gf) \<rparr>"]
    by (simp add: bt_values_conv bt_keys_of_list len sample_package_len gf_calc)
qed

end
