(* ===== verification/Abort.thy ===== *)
theory Abort
  imports Signing
begin

text \<open>
  src/src/ia.rs: the identifiable-abort protocol. A signer commits to its blinding values
  and proves its share well formed (\<open>ia1\<close>), opens the pairwise keys it disagrees about
  (\<open>ia2\<close>), and everybody computes the set of cheaters (\<open>decide\<close>). The merlin transcript is
  the parameter \<open>transcript_lib\<close>. \<open>None\<close> (or \<open>Panic\<close>) stands for a panic of \<open>C::challenge\<close>,
  of \<open>lagrange\<close>, or of an \<open>unwrap\<close> on a map.
\<close>

section \<open>The merlin crate\<close>

record 't transcript_lib =
  transcript_new :: "bytes \<Rightarrow> 't"
  append_message :: "'t \<Rightarrow> bytes \<Rightarrow> bytes \<Rightarrow> 't"
  challenge_bytes :: "'t \<Rightarrow> bytes \<Rightarrow> nat \<Rightarrow> bytes"

section \<open>The messages\<close>

record ('s, 'p) WellformedProof =
  t_sig :: 'p
  t_key :: 'p
  t_blind :: "(Identifier, 'p) btree_map"
  z_sk :: 's
  z_sk_blinding :: 's
  z_blind :: "(Identifier, 's) btree_map"
  z_blind_blinding :: "(Identifier, 's) btree_map"

record ('s, 'p) IA1Message =
  ia1_identifier :: Identifier
  blinding_commitments :: "(Identifier, 'p) btree_map"
  ia1_proof :: "('s, 'p) WellformedProof"

record IA2Decision =
  ia2_identifier :: Identifier
  opened_pairwise_keys :: "(Identifier, bytes) btree_map"

section \<open>Challenges and views\<close>

definition nonce_challenge ::
  "('s, 'p, 'h) ciphersuite \<Rightarrow> 'p SigningPackage \<Rightarrow> 'p PublicKeyPackage \<Rightarrow> 's" where
  "nonce_challenge C signing_package pubkeys =
     (let ids = bt_keys (signing_commitments signing_package);
          commitments_bytes = encode_commitments C (signing_commitments signing_package)
      in binding_factor C (verifying_key pubkeys) (encode_signer_set ids)
           (message signing_package) commitments_bytes)"

definition sig_challenge ::
  "('s, 'p :: ab_group_add, 'h) ciphersuite \<Rightarrow> 'p SigningPackage \<Rightarrow> 'p PublicKeyPackage \<Rightarrow>
   's option" where
  "sig_challenge C signing_package pubkeys =
     (let b = nonce_challenge C signing_package pubkeys;
          (D, E) = sum_commitments (signing_commitments signing_package);
          R = D + point_mul C E b
      in challenge C (verifying_key pubkeys) R (message signing_package))"

definition proof_challenge ::
  "('s, 'p, 'h) ciphersuite \<Rightarrow> 't transcript_lib \<Rightarrow> 'p SigningPackage \<Rightarrow> ('s, 'p) SignatureShare \<Rightarrow>
   'p PublicKeyPackage \<Rightarrow> (Identifier, 'p) btree_map \<Rightarrow> 'p \<Rightarrow> 'p \<Rightarrow> (Identifier, 'p) btree_map \<Rightarrow>
   's \<Rightarrow> 's \<Rightarrow> 's" where
  "proof_challenge C M signing_package signature_share pubkeys commitments tsig tkey tblind b c =
     (let append = (\<lambda>t label msg. append_message M t (ascii label) msg);
          t = transcript_new M (ascii ''FaFROST/IAProof'');
          t = append t ''ctx'' (ascii (CONTEXT C));
          t = append t ''signer'' (to_be_bytes (share_identifier signature_share));
          t = append t ''msg'' (message signing_package);
          t = append t ''b'' (scalar_bytes C b);
          t = append t ''c'' (scalar_bytes C c);
          t = append t ''z'' (scalar_bytes C (share_z signature_share));
          t = append t ''R'' (point_bytes C (share_R signature_share));
          t = append t ''vk'' (point_bytes C (verifying_key pubkeys));
          t = append t ''pedersen_h'' (point_bytes C (pedersen_h pubkeys));
          t = (case bt_get (partial_verification_keys pubkeys) (share_identifier signature_share) of
                 Some vki \<Rightarrow> append t ''vk_i'' (point_bytes C (signing_share_commitment vki))
               | None \<Rightarrow> t);
          t = append t ''commitments'' (encode_commitments C (signing_commitments signing_package));
          t = foldl (\<lambda>t (id, C_pt).
                let t = append t ''blind-id'' (to_be_bytes id)
                in append t ''blind-commit'' (point_bytes C C_pt)) t (bt_entries commitments);
          t = append t ''t_sig'' (point_bytes C tsig);
          t = append t ''t_key'' (point_bytes C tkey);
          t = foldl (\<lambda>t (id, T).
                let t = append t ''t_blind-id'' (to_be_bytes id)
                in append t ''t_blind'' (point_bytes C T)) t (bt_entries tblind)
      in from_uniform_bytes C (challenge_bytes M t (ascii ''challenge'') 64))"

definition ia_view_bytes ::
  "('s, 'p, 'h) ciphersuite \<Rightarrow> 'p SigningPackage \<Rightarrow>
   (Identifier, ('s, 'p) SignatureShare) btree_map \<Rightarrow> bytes" where
  "ia_view_bytes C signing_package signature_shares =
     foldl (\<lambda>out (id, share).
         out @ to_be_bytes id @ point_bytes C (share_R share) @ scalar_bytes C (share_z share))
       (encode_commitments C (signing_commitments signing_package))
       (bt_entries signature_shares)"

section \<open>The proof that a share is well formed\<close>

text \<open>The loop that draws the two randomisers of every peer.\<close>

definition draw_blinds ::
  "('r, 's) rng_lib \<Rightarrow> Identifier \<Rightarrow> Identifier list \<Rightarrow> 'r \<Rightarrow>
   (Identifier, 's) btree_map \<times> (Identifier, 's) btree_map \<times> 'r" where
  "draw_blinds G i ids rng =
     foldl (\<lambda>(r_blind, r_blind_blinding, rng) j.
         if j = i then (r_blind, r_blind_blinding, rng)
         else let (x, rng) = scalar_random G rng;
                  (y, rng) = scalar_random G rng
              in (bt_insert j x r_blind, bt_insert j y r_blind_blinding, rng))
       (bt_empty, bt_empty, rng) ids"

definition prove_t_sig ::
  "('s :: field, 'p :: ab_group_add, 'h) ciphersuite \<Rightarrow> Identifier \<Rightarrow> Identifier list \<Rightarrow>
   (Identifier, 's) btree_map \<Rightarrow> 's \<Rightarrow> 'p option" where
  "prove_t_sig C i ids r_blind k =
     opt_fold (\<lambda>t j.
         if j = i then Some t
         else map_option (\<lambda>r. t + point_mul C (generator C) (r * delta i j)) (bt_get r_blind j))
       (point_mul C (generator C) k) ids"

definition prove_t_blind ::
  "('s :: field, 'p :: ab_group_add, 'h) ciphersuite \<Rightarrow> 'p \<Rightarrow> Identifier \<Rightarrow> Identifier list \<Rightarrow>
   (Identifier, 's) btree_map \<Rightarrow> (Identifier, 's) btree_map \<Rightarrow> (Identifier, 'p) btree_map option" where
  "prove_t_blind C h i ids r_blind r_blind_blinding =
     opt_fold (\<lambda>t j.
         if j = i then Some t
         else Option.bind (bt_get r_blind j) (\<lambda>r.
              Option.bind (bt_get r_blind_blinding j) (\<lambda>rb.
                Some (bt_insert j (point_mul C (generator C) r + point_mul C h rb) t))))
       bt_empty ids"

text \<open>The loop that forms the two responses for every peer.\<close>

definition prove_responses ::
  "'s :: field \<Rightarrow> Identifier \<Rightarrow> Identifier list \<Rightarrow>
   (Identifier, 's) btree_map \<Rightarrow> (Identifier, 's) btree_map \<Rightarrow>
   (Identifier, 's) btree_map \<Rightarrow> (Identifier, 's) btree_map \<Rightarrow>
   ((Identifier, 's) btree_map \<times> (Identifier, 's) btree_map) option" where
  "prove_responses ch i ids r_blind r_blind_blinding blinding_values blinding_randomizers =
     opt_fold (\<lambda>(zb, zbb) j.
         if j = i then Some (zb, zbb)
         else Option.bind (bt_get r_blind j) (\<lambda>r.
              Option.bind (bt_get blinding_values j) (\<lambda>B.
              Option.bind (bt_get r_blind_blinding j) (\<lambda>rb.
              Option.bind (bt_get blinding_randomizers j) (\<lambda>omega.
                Some (bt_insert j (r + ch * B) zb, bt_insert j (rb + ch * omega) zbb))))))
       (bt_empty, bt_empty) ids"

definition prove_wellformed ::
  "('s :: field, 'p :: ab_group_add, 'h) ciphersuite \<Rightarrow> 't transcript_lib \<Rightarrow> ('r, 's) rng_lib \<Rightarrow>
   'p SigningPackage \<Rightarrow> ('s, 'p) SignatureShare \<Rightarrow> 's KeyPackage \<Rightarrow> 'p PublicKeyPackage \<Rightarrow>
   (Identifier, 's) btree_map \<Rightarrow> (Identifier, 's) btree_map \<Rightarrow> (Identifier, 'p) btree_map \<Rightarrow>
   'r \<Rightarrow> (('s, 'p) WellformedProof \<times> 'r) option" where
  "prove_wellformed C M G signing_package signature_share key_package pubkeys
       blinding_values blinding_randomizers commitments rng =
     (let ids = bt_keys (signing_commitments signing_package);
          i = key_identifier key_package;
          b = nonce_challenge C signing_package pubkeys
      in Option.bind (sig_challenge C signing_package pubkeys) (\<lambda>c.
         Option.bind (lagrange i ids) (\<lambda>lambda_i.
           let (r_sk, rng) = scalar_random G rng;
               (r_sk_blinding, rng) = scalar_random G rng;
               (r_blind, r_blind_blinding, rng) = draw_blinds G i ids rng
           in Option.bind (prove_t_sig C i ids r_blind (lambda_i * c * r_sk)) (\<lambda>tsig.
             let tkey = point_mul C (generator C) r_sk + point_mul C (pedersen_h pubkeys) r_sk_blinding
             in Option.bind (prove_t_blind C (pedersen_h pubkeys) i ids r_blind r_blind_blinding) (\<lambda>tblind.
               let ch = proof_challenge C M signing_package signature_share pubkeys commitments
                          tsig tkey tblind b c
               in Option.bind (prove_responses ch i ids r_blind r_blind_blinding
                      blinding_values blinding_randomizers) (\<lambda>(zb, zbb).
                 Some (\<lparr> t_sig = tsig, t_key = tkey, t_blind = tblind,
                         z_sk = r_sk + ch * signing_share key_package,
                         z_sk_blinding = r_sk_blinding + ch * signing_share_blinding key_package,
                         z_blind = zb, z_blind_blinding = zbb \<rparr>, rng)))))))"

text \<open>The loop over \<open>rhs_sig\<close>; \<open>None\<close> is \<open>return false\<close>.\<close>

definition verify_rhs_sig ::
  "('s :: field, 'p :: ab_group_add, 'h) ciphersuite \<Rightarrow> Identifier \<Rightarrow> Identifier list \<Rightarrow>
   (Identifier, 's) btree_map \<Rightarrow> 's \<Rightarrow> 'p option" where
  "verify_rhs_sig C i ids zb k =
     opt_fold (\<lambda>rhs j.
         if j = i then Some rhs
         else map_option (\<lambda>z_B. rhs + point_mul C (generator C) (z_B * delta i j)) (bt_get zb j))
       (point_mul C (generator C) k) ids"

text \<open>The last loop: every peer's commitment opens to the responses.\<close>

definition verify_blinds ::
  "('s :: field, 'p :: ab_group_add, 'h) ciphersuite \<Rightarrow> 'p \<Rightarrow> Identifier \<Rightarrow> Identifier list \<Rightarrow>
   (Identifier, 'p) btree_map \<Rightarrow> ('s, 'p) WellformedProof \<Rightarrow> 's \<Rightarrow> bool" where
  "verify_blinds C h i ids commitments proof ch =
     list_all (\<lambda>j. j = i \<or>
       (case (bt_get commitments j, bt_get (t_blind proof) j, bt_get (z_blind proof) j,
              bt_get (z_blind_blinding proof) j) of
          (Some C_ij, Some t_j, Some z_B, Some z_omega) \<Rightarrow>
            point_mul C (generator C) z_B + point_mul C h z_omega + point_mul C C_ij (- ch) = t_j
        | _ \<Rightarrow> False)) ids"

definition verify_wellformed_proof ::
  "('s :: field, 'p :: ab_group_add, 'h) ciphersuite \<Rightarrow> 't transcript_lib \<Rightarrow>
   'p SigningPackage \<Rightarrow> ('s, 'p) SignatureShare \<Rightarrow> ('s, 'p) IA1Message \<Rightarrow> 'p PublicKeyPackage \<Rightarrow>
   bool option" where
  "verify_wellformed_proof C M signing_package signature_share ia1_message pubkeys =
     (let ids = bt_keys (signing_commitments signing_package);
          i = share_identifier signature_share;
          pf = ia1_proof ia1_message
      in if ia1_identifier ia1_message \<noteq> i then Some False
         else case bt_get (partial_verification_keys pubkeys) i of None \<Rightarrow> Some False | Some vki \<Rightarrow>
         (case bt_get (signing_commitments signing_package) i of None \<Rightarrow> Some False | Some commitment_i \<Rightarrow>
           let b = nonce_challenge C signing_package pubkeys
           in Option.bind (sig_challenge C signing_package pubkeys) (\<lambda>c.
              Option.bind (lagrange i ids) (\<lambda>lambda_i.
                let base = point_mul C (generator C) (share_z signature_share);
                    (agg_d, agg_e) = sum_commitments (signing_commitments signing_package);
                    R_raw = agg_d + point_mul C agg_e b;
                    (_, sign) = normalize_share_r C R_raw 1;
                    A = base - point_mul C (comm_D commitment_i + point_mul C (comm_E commitment_i) b) sign;
                    ch = proof_challenge C M signing_package signature_share pubkeys
                           (blinding_commitments ia1_message) (t_sig pf) (t_key pf) (t_blind pf) b c
                in Some
                  (case verify_rhs_sig C i ids (z_blind pf) (lambda_i * c * z_sk pf) of
                     None \<Rightarrow> False
                   | Some rhs \<Rightarrow>
                       rhs + point_mul C A (- ch) = t_sig pf \<and>
                       point_mul C (generator C) (z_sk pf) + point_mul C (pedersen_h pubkeys) (z_sk_blinding pf)
                         + point_mul C (signing_share_commitment vki) (- ch) = t_key pf \<and>
                       verify_blinds C (pedersen_h pubkeys) i ids (blinding_commitments ia1_message) pf ch)))))"

section \<open>The two rounds\<close>

definition ia1 ::
  "('s :: field, 'p :: ab_group_add, 'h) ciphersuite \<Rightarrow> 't transcript_lib \<Rightarrow> ('r, 's) rng_lib \<Rightarrow>
   'p SigningPackage \<Rightarrow> ('s, 'p) SignatureShare \<Rightarrow> 's KeyPackage \<Rightarrow> 'p PublicKeyPackage \<Rightarrow>
   (Identifier, ('s, 'p) SignatureShare) btree_map \<Rightarrow> 'r \<Rightarrow> (('s, 'p) IA1Message \<times> 'r) result" where
  "ia1 C M G signing_package signature_share key_package pubkeys all_signature_shares rng =
     (let ids = bt_keys (signing_commitments signing_package);
          i = key_identifier key_package
      in if share_identifier signature_share \<noteq> i \<or> i \<notin> set ids then Err (UnknownSigner i)
         else
           let commitments_bytes = encode_commitments C (signing_commitments signing_package);
               signer_set_bytes = encode_signer_set ids;
               view_bytes = ia_view_bytes C signing_package all_signature_shares;
               b_base = blinding_base C commitments_bytes (message signing_package) signer_set_bytes
           in and_then
             (try_fold (\<lambda>(values, randomizers, commitments) j.
                if j = i then Ok (values, randomizers, commitments)
                else and_then (ok_or (bt_get (pairwise_keys key_package) j) (MissingPairwiseKey j)) (\<lambda>k_ij.
                  let B_ij = finish_with C b_base k_ij;
                      omega_ij = blinding_randomizer C k_ij view_bytes;
                      C_ij = pedersen_commit C B_ij omega_ij (pedersen_h pubkeys)
                  in Ok (bt_insert j B_ij values, bt_insert j omega_ij randomizers,
                         bt_insert j C_ij commitments)))
                (bt_empty, bt_empty, bt_empty) ids)
             (\<lambda>(values, randomizers, commitments).
                and_then (unwrap (prove_wellformed C M G signing_package signature_share key_package
                    pubkeys values randomizers commitments rng)) (\<lambda>(pf, rng).
                  Ok (\<lparr> ia1_identifier = i, blinding_commitments = commitments, ia1_proof = pf \<rparr>, rng))))"

text \<open>The loop body of \<open>ia2\<close>: compare the two commitments of a pair.\<close>

definition ia2_step ::
  "'s KeyPackage \<Rightarrow> (Identifier, ('s, 'p) IA1Message) btree_map \<Rightarrow> ('s, 'p) IA1Message \<Rightarrow>
   (Identifier, bytes) btree_map \<Rightarrow> Identifier \<Rightarrow> (Identifier, bytes) btree_map result" where
  "ia2_step key_package ia1_messages own opened j =
     (let i = key_identifier key_package in
      if j = i then Ok opened
      else and_then (ok_or (bt_get (blinding_commitments own) j) (MissingBlindingCommitment i j)) (\<lambda>C_ij.
           and_then (ok_or (bt_get ia1_messages j) (MissingIa1Message j)) (\<lambda>msg_j.
           and_then (ok_or (bt_get (blinding_commitments msg_j) i) (MissingBlindingCommitment j i)) (\<lambda>C_ji.
             if C_ij \<noteq> C_ji
             then and_then (ok_or (bt_get (pairwise_keys key_package) j) (MissingPairwiseKey j)) (\<lambda>k_ij.
                    Ok (bt_insert j k_ij opened))
             else Ok opened))))"

definition ia2 ::
  "'s KeyPackage \<Rightarrow> 'p SigningPackage \<Rightarrow> (Identifier, ('s, 'p) IA1Message) btree_map \<Rightarrow>
   IA2Decision result" where
  "ia2 key_package signing_package ia1_messages =
     (let i = key_identifier key_package;
          ids = bt_keys (signing_commitments signing_package)
      in and_then (ok_or (bt_get ia1_messages i) (MissingIa1Message i)) (\<lambda>own.
         and_then (try_fold (ia2_step key_package ia1_messages own) bt_empty ids) (\<lambda>opened.
           Ok \<lparr> ia2_identifier = i, opened_pairwise_keys = opened \<rparr>)))"

section \<open>The decision\<close>

text \<open>The first loop of \<open>decide\<close>: missing data and bad proofs.\<close>

definition decide_proof_step ::
  "('s :: field, 'p :: ab_group_add, 'h) ciphersuite \<Rightarrow> 't transcript_lib \<Rightarrow>
   'p SigningPackage \<Rightarrow> 'p PublicKeyPackage \<Rightarrow> (Identifier, ('s, 'p) SignatureShare) btree_map \<Rightarrow>
   (Identifier, ('s, 'p) IA1Message) btree_map \<Rightarrow> Identifier set \<Rightarrow> Identifier \<Rightarrow>
   Identifier set option" where
  "decide_proof_step C M signing_package pubkeys signature_shares ia1_messages malicious i =
     (case bt_get signature_shares i of None \<Rightarrow> Some (insert i malicious) | Some share \<Rightarrow>
      (case bt_get ia1_messages i of None \<Rightarrow> Some (insert i malicious) | Some msg \<Rightarrow>
        map_option (\<lambda>ok. if ok then malicious else insert i malicious)
          (verify_wellformed_proof C M signing_package share msg pubkeys)))"

text \<open>The second loop: an opened key either convicts the peer or the accuser.\<close>

definition decide_opened_step ::
  "('s :: field, 'p :: ab_group_add, 'h) ciphersuite \<Rightarrow> 'p PublicKeyPackage \<Rightarrow>
   (Identifier, ('s, 'p) IA1Message) btree_map \<Rightarrow> 'h \<Rightarrow> bytes \<Rightarrow> Identifier \<Rightarrow>
   Identifier set \<Rightarrow> Identifier \<times> bytes \<Rightarrow> Identifier set" where
  "decide_opened_step C pubkeys ia1_messages b_base view_bytes accuser malicious = (\<lambda>(peer, opened_key).
     case bt_get (partial_verification_keys pubkeys) accuser of
       None \<Rightarrow> insert accuser malicious
     | Some vk_accuser \<Rightarrow>
     (case bt_get (pairwise_key_commitments vk_accuser) peer of
       None \<Rightarrow> insert accuser malicious
     | Some expected_key_commitment \<Rightarrow>
       if hash_pairwise_key_commitment C opened_key \<noteq> expected_key_commitment
       then insert accuser malicious
       else
         let B = finish_with C b_base opened_key;
             omega = blinding_randomizer C opened_key view_bytes;
             expected_commitment = pedersen_commit C B omega (pedersen_h pubkeys)
         in case bt_get ia1_messages peer of
              None \<Rightarrow> insert peer malicious
            | Some peer_msg \<Rightarrow>
            (case bt_get (blinding_commitments peer_msg) accuser of
              None \<Rightarrow> insert peer malicious
            | Some peer_commitment \<Rightarrow>
                if peer_commitment \<noteq> expected_commitment then insert peer malicious else malicious)))"

text \<open>Whether \<open>i\<close> opened its key with \<open>j\<close>.\<close>

definition has_opened :: "(Identifier, IA2Decision) btree_map \<Rightarrow> Identifier \<Rightarrow> Identifier \<Rightarrow> bool" where
  "has_opened ia2_decisions i j =
     (case bt_get ia2_decisions i of
        Some d \<Rightarrow> bt_contains_key (opened_pairwise_keys d) j
      | None \<Rightarrow> False)"

text \<open>The third loop: commitments that disagree must have been opened.\<close>

definition decide_pair_step ::
  "(Identifier, ('s, 'p) IA1Message) btree_map \<Rightarrow> (Identifier, IA2Decision) btree_map \<Rightarrow>
   Identifier \<Rightarrow> Identifier set \<Rightarrow> Identifier \<Rightarrow> Identifier set" where
  "decide_pair_step ia1_messages ia2_decisions i malicious j =
     (if i \<ge> j then malicious
      else case bt_get ia1_messages i of None \<Rightarrow> insert i malicious | Some msg_i \<Rightarrow>
      (case bt_get ia1_messages j of None \<Rightarrow> insert j malicious | Some msg_j \<Rightarrow>
      (case bt_get (blinding_commitments msg_i) j of None \<Rightarrow> insert i malicious | Some C_ij \<Rightarrow>
      (case bt_get (blinding_commitments msg_j) i of None \<Rightarrow> insert j malicious | Some C_ji \<Rightarrow>
        if C_ij \<noteq> C_ji
        then let m = (if \<not> has_opened ia2_decisions i j then insert i malicious else malicious)
             in (if \<not> has_opened ia2_decisions j i then insert j m else m)
        else malicious))))"

definition decide ::
  "('s :: field, 'p :: ab_group_add, 'h) ciphersuite \<Rightarrow> 't transcript_lib \<Rightarrow>
   'p SigningPackage \<Rightarrow> 'p PublicKeyPackage \<Rightarrow> (Identifier, ('s, 'p) SignatureShare) btree_map \<Rightarrow>
   (Identifier, ('s, 'p) IA1Message) btree_map \<Rightarrow> (Identifier, IA2Decision) btree_map \<Rightarrow>
   Identifier set option" where
  "decide C M signing_package pubkeys signature_shares ia1_messages ia2_decisions =
     (let ids = bt_keys (signing_commitments signing_package)
      in map_option (\<lambda>malicious.
           let commitments_bytes = encode_commitments C (signing_commitments signing_package);
               signer_set_bytes = encode_signer_set ids;
               view_bytes = ia_view_bytes C signing_package signature_shares;
               b_base = blinding_base C commitments_bytes (message signing_package) signer_set_bytes;
               malicious = foldl (\<lambda>malicious (accuser, decision).
                   foldl (decide_opened_step C pubkeys ia1_messages b_base view_bytes accuser)
                     malicious (bt_entries (opened_pairwise_keys decision)))
                 malicious (bt_entries ia2_decisions)
           in foldl (\<lambda>malicious i. foldl (decide_pair_step ia1_messages ia2_decisions i) malicious ids)
                malicious ids)
         (opt_fold (decide_proof_step C M signing_package pubkeys signature_shares ia1_messages) {} ids))"

end
