(* ===== verification/Abort_Proof.thy ===== *)
theory Abort_Proof
  imports Abort
begin

text \<open>
  The proof that a share is well formed (\<open>prove_wellformed\<close>, \<open>verify_wellformed_proof\<close> and
  \<open>ia1\<close> of src/src/ia.rs): the verifier in closed form, completeness (the message of a
  signer that followed the protocol is accepted), special soundness (two accepted answers
  to different challenges give a witness), and rejection of a tampered response.
\<close>

text \<open>Points of the prime-order subgroup.\<close>

definition in_subgroup :: "('s, 'p, 'h) ciphersuite \<Rightarrow> 'p \<Rightarrow> bool" where
  "in_subgroup C P \<longleftrightarrow> (\<exists>x. P = point_mul C (generator C) x)"

section \<open>Loops over the peers of a signer\<close>

lemma opt_fold_peers:
  fixes f :: "Identifier \<Rightarrow> 'v \<Rightarrow> 'p :: ab_group_add"
  shows "opt_fold (\<lambda>t j. if j = i then Some t else map_option (\<lambda>r. t + f j r) (get j)) a ids =
    (if \<forall>j\<in>set ids. j \<noteq> i \<longrightarrow> get j \<noteq> None
     then Some (a + sum_list (map (\<lambda>j. f j (the (get j))) (filter (\<lambda>j. j \<noteq> i) ids))) else None)"
proof (induction ids arbitrary: a)
  case (Cons j ids)
  then show ?case by (cases "get j") (auto simp: add.assoc)
qed simp

lemma opt_fold_peers_map:
  assumes "\<And>m j. j \<in> set ids \<Longrightarrow> j \<noteq> i \<Longrightarrow> step m j = Some (upd m j)"
  shows "opt_fold (\<lambda>m j. if j = i then Some m else step m j) m0 ids =
    Some (foldl (\<lambda>m j. if j = i then m else upd m j) m0 ids)"
  by (rule opt_fold_total) (use assms in auto)

lemma foldl_triple:
  "foldl (\<lambda>(m, n, q) j. if j = i then (m, n, q) else (upd m j, upe n j, upf q j)) (m0, n0, q0) ids =
     (foldl (\<lambda>m j. if j = i then m else upd m j) m0 ids,
      foldl (\<lambda>n j. if j = i then n else upe n j) n0 ids,
      foldl (\<lambda>q j. if j = i then q else upf q j) q0 ids)"
  by (induction ids arbitrary: m0 n0 q0) auto

text \<open>A map filled with one entry per peer.\<close>

definition peer_map :: "Identifier \<Rightarrow> Identifier list \<Rightarrow> (Identifier \<Rightarrow> 'v) \<Rightarrow> (Identifier, 'v) btree_map" where
  "peer_map i ids f = foldl (\<lambda>m j. if j = i then m else bt_insert j (f j) m) bt_empty ids"

lemma bt_get_peer_map:
  "bt_get (peer_map i ids f) k = (if k \<in> set ids \<and> k \<noteq> i then Some (f k) else None)"
proof -
  have "bt_get (foldl (\<lambda>m j. if j = i then m else bt_insert j (f j) m) m0 ids) k =
      (if k \<in> set ids \<and> k \<noteq> i then Some (f k) else bt_get m0 k)" for m0
    by (induction ids arbitrary: m0) auto
  then show ?thesis by (simp add: peer_map_def)
qed

lemma foldl_pair:
  "foldl (\<lambda>(m, n) j. if j = i then (m, n) else (upd m j, upe n j)) (m0, n0) ids =
     (foldl (\<lambda>m j. if j = i then m else upd m j) m0 ids,
      foldl (\<lambda>n j. if j = i then n else upe n j) n0 ids)"
  by (induction ids arbitrary: m0 n0) auto

lemma sum_list_peers:
  fixes f :: "Identifier \<Rightarrow> 's :: ab_group_add"
  assumes "distinct ids"
  shows "sum_list (map f (filter (\<lambda>j. j \<noteq> i) ids)) = (\<Sum>j\<in>set ids - {i}. f j)"
proof -
  have "set (filter (\<lambda>j. j \<noteq> i) ids) = set ids - {i}" by auto
  then show ?thesis using assms by (simp add: sum_list_distinct_conv_sum_set del: set_filter)
qed

text \<open>The signers of a package other than \<open>i\<close>.\<close>

definition peers :: "'p SigningPackage \<Rightarrow> Identifier \<Rightarrow> Identifier set" where
  "peers sp i = {j. bt_contains_key (signing_commitments sp) j \<and> j \<noteq> i}"

lemma set_keys_peers: "set (bt_keys (signing_commitments sp)) - {i} = peers sp i"
  by (auto simp: peers_def)

lemma finite_peers [simp]: "finite (peers sp i)"
  by (simp flip: set_keys_peers)

section \<open>The statement that is proved\<close>

lemma nonce_challenge_eq: "nonce_challenge C sp pubs = package_binding C sp pubs"
  by (simp add: nonce_challenge_def package_binding_def Let_def)

lemma sig_challenge_eq: "sig_challenge C sp pubs = package_challenge C sp pubs"
  by (simp add: sig_challenge_def package_challenge_def package_nonce_def nonce_challenge_eq
      case_prod_unfold Let_def)

text \<open>The point \<open>A\<close>: the share without its nonce.\<close>

definition share_point ::
  "('s :: field, 'p :: ab_group_add, 'h) ciphersuite \<Rightarrow> 'p SigningPackage \<Rightarrow> 'p PublicKeyPackage \<Rightarrow>
   'p SigningCommitments \<Rightarrow> 's \<Rightarrow> 'p" where
  "share_point C sp pubs sc z =
     point_mul C (generator C) z -
     point_mul C (comm_D sc + point_mul C (comm_E sc) (package_binding C sp pubs))
       (share_sign C (package_nonce C sp pubs))"

text \<open>The Fiat-Shamir challenge of a message.\<close>

definition message_challenge ::
  "('s, 'p, 'h) ciphersuite \<Rightarrow> 't transcript_lib \<Rightarrow> 'p SigningPackage \<Rightarrow> ('s, 'p) SignatureShare \<Rightarrow>
   'p PublicKeyPackage \<Rightarrow> ('s, 'p) IA1Message \<Rightarrow> 's \<Rightarrow> 's" where
  "message_challenge C M sp sh pubs msg c =
     proof_challenge C M sp sh pubs (blinding_commitments msg) (t_sig (ia1_proof msg))
       (t_key (ia1_proof msg)) (t_blind (ia1_proof msg)) (package_binding C sp pubs) c"

text \<open>The responses answer \<open>ch\<close>: the conjunction the verifier checks.\<close>

definition answers ::
  "('s :: field, 'p :: ab_group_add, 'h) ciphersuite \<Rightarrow> 'p SigningPackage \<Rightarrow> 'p \<Rightarrow> Identifier \<Rightarrow> 's \<Rightarrow>
   'p \<Rightarrow> 'p \<Rightarrow> ('s, 'p) IA1Message \<Rightarrow> 's \<Rightarrow> bool" where
  "answers C sp h i k A V msg ch \<longleftrightarrow>
     (let pf = ia1_proof msg in
      (\<forall>j\<in>peers sp i. bt_contains_key (z_blind pf) j) \<and>
      point_mul C (generator C) (k * z_sk pf + (\<Sum>j\<in>peers sp i. the (bt_get (z_blind pf) j) * delta i j))
        + point_mul C A (- ch) = t_sig pf \<and>
      point_mul C (generator C) (z_sk pf) + point_mul C h (z_sk_blinding pf) + point_mul C V (- ch) = t_key pf \<and>
      (\<forall>j\<in>peers sp i. \<exists>Cj t z w. bt_get (blinding_commitments msg) j = Some Cj \<and>
         bt_get (t_blind pf) j = Some t \<and> bt_get (z_blind pf) j = Some z \<and>
         bt_get (z_blind_blinding pf) j = Some w \<and>
         point_mul C (generator C) z + point_mul C h w + point_mul C Cj (- ch) = t))"

context suite_contract
begin

lemma verify_rhs_sig_eq:
  "verify_rhs_sig C i (bt_keys (signing_commitments sp)) zb k =
     (if \<forall>j\<in>peers sp i. bt_contains_key zb j
      then Some (point_mul C (generator C) (k + (\<Sum>j\<in>peers sp i. the (bt_get zb j) * delta i j)))
      else None)"
  by (auto simp: verify_rhs_sig_def opt_fold_peers gen_calc sum_list_peers set_keys_peers
      bt_contains_key_def [of zb] peers_def)

lemma prove_t_sig_eq: "prove_t_sig C i ids r k = verify_rhs_sig C i ids r k"
  by (simp add: prove_t_sig_def verify_rhs_sig_def)

lemma verify_blinds_iff:
  "verify_blinds C h i (bt_keys (signing_commitments sp)) commitments pf ch \<longleftrightarrow>
     (\<forall>j\<in>peers sp i. \<exists>Cj t z w. bt_get commitments j = Some Cj \<and>
         bt_get (t_blind pf) j = Some t \<and> bt_get (z_blind pf) j = Some z \<and>
         bt_get (z_blind_blinding pf) j = Some w \<and>
         point_mul C (generator C) z + point_mul C h w + point_mul C Cj (- ch) = t)"
proof -
  have "(case (x, y, z, w) of
          (Some C_ij, Some t_j, Some z_B, Some z_omega) \<Rightarrow>
            point_mul C (generator C) z_B + point_mul C h z_omega + point_mul C C_ij (- ch) = t_j
        | _ \<Rightarrow> False) \<longleftrightarrow> (\<exists>Cj t' z' w'. x = Some Cj \<and> y = Some t' \<and> z = Some z' \<and> w = Some w' \<and>
         point_mul C (generator C) z' + point_mul C h w' + point_mul C Cj (- ch) = t')" for x y z w
    by (auto split: option.splits)
  then show ?thesis
    unfolding verify_blinds_def list_all_iff peers_def by auto
qed

lemma verify_wellformed_eq:
  assumes "bt_get (signing_commitments sp) (share_identifier sh) = Some sc"
    and "bt_get (partial_verification_keys pubs) (share_identifier sh) = Some vki"
    and "package_challenge C sp pubs = Some c"
  shows "verify_wellformed_proof C M sp sh msg pubs = Some
    (ia1_identifier msg = share_identifier sh \<and>
     answers C sp (pedersen_h pubs) (share_identifier sh)
       (lag (set (bt_keys (signing_commitments sp))) scalar_from (share_identifier sh) * c)
       (share_point C sp pubs sc (share_z sh)) (signing_share_commitment vki) msg
       (message_challenge C M sp sh pubs msg c))"
proof -
  have "sum_commitments (signing_commitments sp) = (d, e) \<Longrightarrow>
      share_sign C (d + point_mul C e (package_binding C sp pubs)) =
      share_sign C (package_nonce C sp pubs)" for d e
    by (simp add: package_nonce_def)
  then show ?thesis
    using assms
    by (auto simp: verify_wellformed_proof_def Let_def nonce_challenge_eq sig_challenge_eq
        lagrange_total verify_rhs_sig_eq verify_blinds_iff answers_def message_challenge_def
        share_point_def share_sign_def case_prod_unfold)
qed

end

section \<open>The prover\<close>

lemma draw_blinds_eq:
  assumes "distinct ids"
  shows "\<exists>x y rng'. draw_blinds G i ids rng = (peer_map i ids x, peer_map i ids y, rng')"
proof -
  have "\<exists>x y rng'. foldl (\<lambda>(r_blind, r_blind_blinding, rng) j.
         if j = i then (r_blind, r_blind_blinding, rng)
         else let (x, rng) = scalar_random G rng; (y, rng) = scalar_random G rng
              in (bt_insert j x r_blind, bt_insert j y r_blind_blinding, rng)) (m, n, rng) ids =
      (foldl (\<lambda>m j. if j = i then m else bt_insert j (x j) m) m ids,
       foldl (\<lambda>m j. if j = i then m else bt_insert j (y j) m) n ids, rng')" for m n
    using assms
  proof (induction ids arbitrary: m n rng)
    case (Cons k ids)
    show ?case
    proof (cases "k = i")
      case True
      with Cons show ?thesis by simp
    next
      case False
      obtain x0 r1 where x0: "scalar_random G rng = (x0, r1)" by (cases "scalar_random G rng")
      obtain y0 r2 where y0: "scalar_random G r1 = (y0, r2)" by (cases "scalar_random G r1")
      obtain x y rng' where IH: "foldl (\<lambda>(r_blind, r_blind_blinding, rng) j.
         if j = i then (r_blind, r_blind_blinding, rng)
         else let (x, rng) = scalar_random G rng; (y, rng) = scalar_random G rng
              in (bt_insert j x r_blind, bt_insert j y r_blind_blinding, rng))
            (bt_insert k x0 m, bt_insert k y0 n, r2) ids =
          (foldl (\<lambda>m j. if j = i then m else bt_insert j (x j) m) (bt_insert k x0 m) ids,
           foldl (\<lambda>m j. if j = i then m else bt_insert j (y j) m) (bt_insert k y0 n) ids, rng')"
        using Cons.IH [of "bt_insert k x0 m" "bt_insert k y0 n" r2] Cons.prems by auto
      have upd: "foldl (\<lambda>m j. if j = i then m else bt_insert j ((f(k := a)) j) m) m0 ids =
          foldl (\<lambda>m j. if j = i then m else bt_insert j (f j) m) m0 ids" for f a m0
        using Cons.prems by (intro foldl_cong) auto
      show ?thesis
        using False IH upd [of x x0] upd [of y y0]
        by (intro exI [of _ "x(k := x0)"] exI [of _ "y(k := y0)"] exI [of _ rng'])
          (simp add: x0 y0)
    qed
  qed auto
  then show ?thesis by (simp add: draw_blinds_def peer_map_def)
qed

text \<open>The proof is formed from \<open>r_sk\<close>, its blinding, and two randomisers per peer.\<close>

definition proof_of ::
  "('s :: field, 'p :: ab_group_add, 'h) ciphersuite \<Rightarrow> 'p SigningPackage \<Rightarrow> 'p \<Rightarrow> Identifier \<Rightarrow> 's \<Rightarrow>
   's \<Rightarrow> 's \<Rightarrow> (Identifier \<Rightarrow> 's) \<Rightarrow> (Identifier \<Rightarrow> 's) \<Rightarrow> 's \<Rightarrow> 's \<Rightarrow> (Identifier \<Rightarrow> 's) \<Rightarrow> (Identifier \<Rightarrow> 's) \<Rightarrow>
   's \<Rightarrow> ('s, 'p) WellformedProof \<Rightarrow> bool" where
  "proof_of C sp h i k r rb x y s w B W ch pf \<longleftrightarrow>
     t_sig pf = point_mul C (generator C) (k * r + (\<Sum>j\<in>peers sp i. x j * delta i j)) \<and>
     t_key pf = point_mul C (generator C) r + point_mul C h rb \<and>
     z_sk pf = r + ch * s \<and> z_sk_blinding pf = rb + ch * w \<and>
     (\<forall>j\<in>peers sp i.
        bt_get (t_blind pf) j = Some (point_mul C (generator C) (x j) + point_mul C h (y j)) \<and>
        bt_get (z_blind pf) j = Some (x j + ch * B j) \<and>
        bt_get (z_blind_blinding pf) j = Some (y j + ch * W j))"

context suite_contract
begin

lemma prove_wellformed_proof_of:
  assumes c: "package_challenge C sp pubs = Some c"
    and bvals: "\<And>j. j \<in> peers sp (key_identifier kp) \<Longrightarrow> bt_get bv j = Some (B j)"
    and brands: "\<And>j. j \<in> peers sp (key_identifier kp) \<Longrightarrow> bt_get br j = Some (W j)"
  shows "\<exists>pf rng' r rb x y.
    prove_wellformed C M G sp sh kp pubs bv br bc rng = Some (pf, rng') \<and>
    proof_of C sp (pedersen_h pubs) (key_identifier kp)
      (lag (set (bt_keys (signing_commitments sp))) scalar_from (key_identifier kp) * c) r rb x y
      (signing_share kp) (signing_share_blinding kp) B W
      (proof_challenge C M sp sh pubs bc (t_sig pf) (t_key pf) (t_blind pf)
        (package_binding C sp pubs) c) pf"
proof -
  let ?i = "key_identifier kp" and ?ids = "bt_keys (signing_commitments sp)"
  let ?h = "pedersen_h pubs"
  obtain r rng1 where r: "scalar_random G rng = (r, rng1)" by (cases "scalar_random G rng")
  obtain rb rng2 where rb: "scalar_random G rng1 = (rb, rng2)" by (cases "scalar_random G rng1")
  obtain x y rng3 where draw: "draw_blinds G ?i ?ids rng2 = (peer_map ?i ?ids x, peer_map ?i ?ids y, rng3)"
    using draw_blinds_eq [of ?ids G ?i rng2] by auto
  have get: "bt_get (peer_map ?i ?ids f) j = Some (f j)" if "j \<in> peers sp ?i" for f :: "Identifier \<Rightarrow> 's" and j
    using that by (simp add: bt_get_peer_map peers_def)
  have get_point: "bt_get (peer_map ?i ?ids f) j = Some (f j)" if "j \<in> peers sp ?i" for f :: "Identifier \<Rightarrow> 'p" and j
    using that by (simp add: bt_get_peer_map peers_def)
  have peer: "j \<in> peers sp ?i" if "j \<in> set ?ids" "j \<noteq> ?i" for j
    using that by (simp add: peers_def)
  have tsig: "prove_t_sig C ?i ?ids (peer_map ?i ?ids x) k =
      Some (point_mul C (generator C) (k + (\<Sum>j\<in>peers sp ?i. x j * delta ?i j)))" for k
    by (simp add: prove_t_sig_eq verify_rhs_sig_eq get bt_contains_key_def)
  let ?t = "\<lambda>j. point_mul C (generator C) (x j) + point_mul C ?h (y j)"
  have tblind: "prove_t_blind C ?h ?i ?ids (peer_map ?i ?ids x) (peer_map ?i ?ids y) = Some (peer_map ?i ?ids ?t)"
    unfolding prove_t_blind_def peer_map_def [of _ _ ?t]
    by (rule opt_fold_peers_map) (simp add: get peer)
  have resp: "prove_responses ch ?i ?ids (peer_map ?i ?ids x) (peer_map ?i ?ids y) bv br =
      Some (peer_map ?i ?ids (\<lambda>j. x j + ch * B j), peer_map ?i ?ids (\<lambda>j. y j + ch * W j))" for ch
  proof -
    have "prove_responses ch ?i ?ids (peer_map ?i ?ids x) (peer_map ?i ?ids y) bv br =
        Some (foldl (\<lambda>(m, n) j. if j = ?i then (m, n)
          else (bt_insert j (x j + ch * B j) m, bt_insert j (y j + ch * W j) n)) (bt_empty, bt_empty) ?ids)"
      unfolding prove_responses_def
      by (rule opt_fold_total) (auto simp: get peer bvals brands split: prod.splits)
    then show ?thesis by (simp add: foldl_pair peer_map_def)
  qed
  have "\<exists>pf. prove_wellformed C M G sp sh kp pubs bv br bc rng = Some (pf, rng3) \<and>
    proof_of C sp ?h ?i (lag (set ?ids) scalar_from ?i * c) r rb x y
      (signing_share kp) (signing_share_blinding kp) B W
      (proof_challenge C M sp sh pubs bc (t_sig pf) (t_key pf) (t_blind pf)
        (package_binding C sp pubs) c) pf"
    by (simp add: prove_wellformed_def nonce_challenge_eq sig_challenge_eq c lagrange_total r rb draw
        tsig tblind resp Let_def proof_of_def get get_point)
  then show ?thesis by blast
qed

text \<open>Completeness: such a proof answers its challenge.\<close>

lemma proof_of_answers:
  assumes pf: "proof_of C sp h i k r rb x y s w B W ch (ia1_proof msg)"
    and h: "pedersen_generator C = Some h"
    and A: "A = point_mul C (generator C) (k * s + (\<Sum>j\<in>peers sp i. delta i j * B j))"
    and V: "V = pedersen_commit C s w h"
    and Cj: "\<And>j. j \<in> peers sp i \<Longrightarrow>
      bt_get (blinding_commitments msg) j = Some (pedersen_commit C (B j) (W j) h)"
  shows "answers C sp h i k A V msg ch"
proof -
  obtain u where u: "h = point_mul C (generator C) u" using pedersen_in_subgroup [OF h] by blast
  define X where "X = (\<Sum>j\<in>peers sp i. x j * delta i j)"
  define S where "S = (\<Sum>j\<in>peers sp i. delta i j * B j)"
  have "(\<Sum>j\<in>peers sp i. the (bt_get (z_blind (ia1_proof msg)) j) * delta i j) =
      (\<Sum>j\<in>peers sp i. x j * delta i j + ch * (delta i j * B j))"
    using pf by (intro sum.cong) (simp_all add: proof_of_def algebra_simps)
  then have sum: "(\<Sum>j\<in>peers sp i. the (bt_get (z_blind (ia1_proof msg)) j) * delta i j) = X + ch * S"
    by (simp add: sum.distrib sum_distrib_left X_def S_def)
  have sig: "point_mul C (generator C) (k * (r + ch * s) + (X + ch * S)) + point_mul C A (- ch) =
      point_mul C (generator C) (k * r + X)"
    unfolding A S_def [symmetric] by (simp add: gen_calc algebra_simps)
  have z: "z_sk (ia1_proof msg) = r + ch * s" "t_sig (ia1_proof msg) = point_mul C (generator C) (k * r + X)"
    using pf by (simp_all add: proof_of_def X_def)
  show ?thesis
    unfolding answers_def Let_def
  proof (intro conjI)
    show "\<forall>j\<in>peers sp i. bt_contains_key (z_blind (ia1_proof msg)) j"
      using pf by (simp add: proof_of_def bt_contains_key_def)
    show "point_mul C (generator C) (k * z_sk (ia1_proof msg) +
        (\<Sum>j\<in>peers sp i. the (bt_get (z_blind (ia1_proof msg)) j) * delta i j)) + point_mul C A (- ch) =
        t_sig (ia1_proof msg)"
      by (simp only: sum z sig)
    show "point_mul C (generator C) (z_sk (ia1_proof msg)) + point_mul C h (z_sk_blinding (ia1_proof msg))
        + point_mul C V (- ch) = t_key (ia1_proof msg)"
      using pf by (simp add: proof_of_def V u pedersen_commit_eq gen_calc algebra_simps)
    show "\<forall>j\<in>peers sp i. \<exists>Cj t z w. bt_get (blinding_commitments msg) j = Some Cj \<and>
         bt_get (t_blind (ia1_proof msg)) j = Some t \<and> bt_get (z_blind (ia1_proof msg)) j = Some z \<and>
         bt_get (z_blind_blinding (ia1_proof msg)) j = Some w \<and>
         point_mul C (generator C) z + point_mul C h w + point_mul C Cj (- ch) = t"
      using pf Cj by (simp add: proof_of_def u pedersen_commit_eq gen_calc algebra_simps)
  qed
qed

end

section \<open>The first round of an honest signer\<close>

text \<open>The commitment that both ends of a pair with key \<open>k\<close> publish.\<close>

definition pair_commit_point ::
  "('s, 'p :: plus, 'h) ciphersuite \<Rightarrow> 'p SigningPackage \<Rightarrow> 'p PublicKeyPackage \<Rightarrow> bytes \<Rightarrow> bytes \<Rightarrow> 'p" where
  "pair_commit_point C sp pubs view k =
     pedersen_commit C
       (pair_blinding C (bt_keys (signing_commitments sp))
         (encode_commitments C (signing_commitments sp)) (message sp) k)
       (blinding_randomizer C k view) (pedersen_h pubs)"

definition signer_keys_cover :: "'p SigningPackage \<Rightarrow> 's KeyPackage \<Rightarrow> bool" where
  "signer_keys_cover sp kp \<longleftrightarrow>
     (\<forall>j\<in>peers sp (key_identifier kp). bt_contains_key (pairwise_keys kp) j)"

text \<open>What \<open>ia1\<close> returns to a signer that shares a key with every peer.\<close>

definition ia1_output ::
  "('s :: field, 'p :: ab_group_add, 'h) ciphersuite \<Rightarrow> 't transcript_lib \<Rightarrow> 'p SigningPackage \<Rightarrow>
   ('s, 'p) SignatureShare \<Rightarrow> 's KeyPackage \<Rightarrow> 'p PublicKeyPackage \<Rightarrow>
   (Identifier, ('s, 'p) SignatureShare) btree_map \<Rightarrow> 's \<Rightarrow> ('s, 'p) IA1Message \<Rightarrow> bool" where
  "ia1_output C M sp sh kp pubs all c msg \<longleftrightarrow>
     (let i = key_identifier kp; view = ia_view_bytes C sp all;
          key = (\<lambda>j. the (bt_get (pairwise_keys kp) j)) in
      ia1_identifier msg = i \<and>
      (\<forall>j. bt_get (blinding_commitments msg) j =
         (if j \<in> peers sp i then Some (pair_commit_point C sp pubs view (key j)) else None)) \<and>
      (\<exists>r rb x y. proof_of C sp (pedersen_h pubs) i
         (lag (set (bt_keys (signing_commitments sp))) scalar_from i * c) r rb x y
         (signing_share kp) (signing_share_blinding kp)
         (\<lambda>j. pair_blinding C (bt_keys (signing_commitments sp))
            (encode_commitments C (signing_commitments sp)) (message sp) (key j))
         (\<lambda>j. blinding_randomizer C (key j) view)
         (message_challenge C M sp sh pubs msg c) (ia1_proof msg)))"

context suite_contract
begin

lemma ia1_Ok:
  assumes i: "share_identifier sh = key_identifier kp"
    "bt_contains_key (signing_commitments sp) (key_identifier kp)"
    and keys: "signer_keys_cover sp kp"
    and c: "package_challenge C sp pubs = Some c"
  shows "\<exists>msg rng'. ia1 C M G sp sh kp pubs all rng = Ok (msg, rng') \<and>
    ia1_output C M sp sh kp pubs all c msg"
proof -
  let ?i = "key_identifier kp" and ?ids = "bt_keys (signing_commitments sp)"
  let ?cb = "encode_commitments C (signing_commitments sp)"
  let ?view = "ia_view_bytes C sp all"
  let ?key = "\<lambda>j. the (bt_get (pairwise_keys kp) j)"
  let ?B = "\<lambda>j. pair_blinding C ?ids ?cb (message sp) (?key j)"
  let ?W = "\<lambda>j. blinding_randomizer C (?key j) ?view"
  let ?C = "\<lambda>j. pair_commit_point C sp pubs ?view (?key j)"
  define f where "f = (\<lambda>(vals, rands, commits) j.
      if j = ?i then Ok (vals, rands, commits)
      else and_then (ok_or (bt_get (pairwise_keys kp) j) (MissingPairwiseKey j)) (\<lambda>k_ij.
        let B_ij = finish_with C (blinding_base C ?cb (message sp) (encode_signer_set ?ids)) k_ij;
            omega_ij = blinding_randomizer C k_ij ?view;
            C_ij = pedersen_commit C B_ij omega_ij (pedersen_h pubs)
        in Ok (bt_insert j B_ij vals, bt_insert j omega_ij rands, bt_insert j C_ij commits)))"
  have key: "bt_contains_key (pairwise_keys kp) j" if "j \<in> set ?ids" "j \<noteq> ?i" for j
    using keys that by (simp add: signer_keys_cover_def peers_def)
  have "f acc j = Ok ((\<lambda>(m, n, q) j. if j = ?i then (m, n, q)
      else (bt_insert j (?B j) m, bt_insert j (?W j) n, bt_insert j (?C j) q)) acc j)"
    if "j \<in> set ?ids" for acc j
  proof (cases "j = ?i")
    case False
    have "bt_contains_key (pairwise_keys kp) j"
      using key that False by blast
    then obtain k where "bt_get (pairwise_keys kp) j = Some k" by (rule bt_contains_keyE)
    with False show ?thesis
      by (cases acc) (simp add: f_def Let_def pair_blinding_def pair_commit_point_def)
  qed (cases acc, simp add: f_def)
  then have "try_fold f (bt_empty, bt_empty, bt_empty) ?ids =
      Ok (foldl (\<lambda>(m, n, q) j. if j = ?i then (m, n, q)
      else (bt_insert j (?B j) m, bt_insert j (?W j) n, bt_insert j (?C j) q)) (bt_empty, bt_empty, bt_empty) ?ids)"
    by (rule try_fold_total)
  then have loop: "try_fold f (bt_empty, bt_empty, bt_empty) ?ids =
      Ok (peer_map ?i ?ids ?B, peer_map ?i ?ids ?W, peer_map ?i ?ids ?C)"
    by (simp add: foldl_triple peer_map_def)
  have mem: "j \<in> set ?ids \<and> j \<noteq> ?i \<longleftrightarrow> j \<in> peers sp ?i" for j by (simp add: peers_def)
  obtain pf rng' r rb x y where
    prove: "prove_wellformed C M G sp sh kp pubs (peer_map ?i ?ids ?B) (peer_map ?i ?ids ?W)
      (peer_map ?i ?ids ?C) rng = Some (pf, rng')"
    and pf: "proof_of C sp (pedersen_h pubs) ?i (lag (set ?ids) scalar_from ?i * c) r rb x y
      (signing_share kp) (signing_share_blinding kp) ?B ?W
      (proof_challenge C M sp sh pubs (peer_map ?i ?ids ?C) (t_sig pf) (t_key pf) (t_blind pf)
        (package_binding C sp pubs) c) pf"
    using prove_wellformed_proof_of [OF c, of kp "peer_map ?i ?ids ?B" ?B "peer_map ?i ?ids ?W" ?W
        M G sh "peer_map ?i ?ids ?C" rng]
    by (auto simp: bt_get_peer_map mem simp del: bt_keys_mem)
  let ?msg = "\<lparr> ia1_identifier = ?i, blinding_commitments = peer_map ?i ?ids ?C, ia1_proof = pf \<rparr>"
  have "ia1 C M G sp sh kp pubs all rng = Ok (?msg, rng')"
    using i loop prove by (simp add: ia1_def f_def Let_def)
  moreover have "ia1_output C M sp sh kp pubs all c ?msg"
    using pf unfolding ia1_output_def Let_def
    by (auto simp: bt_get_peer_map mem message_challenge_def simp del: bt_keys_mem)
  ultimately show ?thesis by blast
qed

text \<open>The share without its nonce, for a signer that published its own commitment.\<close>

lemma share_point_honest:
  assumes "nonce_matches C n sc"
  shows "share_point C sp pubs sc (share_response sp pubs n kp c + d) =
    point_mul C (generator C)
      (lag (set (bt_keys (signing_commitments sp))) scalar_from (key_identifier kp) * c * signing_share kp
       + (\<Sum>j\<in>peers sp (key_identifier kp). delta (key_identifier kp) j *
           pair_blinding C (bt_keys (signing_commitments sp))
             (encode_commitments C (signing_commitments sp)) (message sp)
             (the (bt_get (pairwise_keys kp) j))) + d)"
proof -
  have "blinding_sum C sp kp = (\<Sum>j\<in>peers sp (key_identifier kp). delta (key_identifier kp) j *
           pair_blinding C (bt_keys (signing_commitments sp))
             (encode_commitments C (signing_commitments sp)) (message sp)
             (the (bt_get (pairwise_keys kp) j)))"
    unfolding blinding_sum_def set_keys_peers ..
  then show ?thesis
    using assms
    by (simp add: share_point_def share_response_def nonce_matches_def mul_generator_eq gen_calc
        algebra_simps)
qed

lemma answers_shift:
  assumes "answers C sp h i k A V msg ch"
  shows "answers C sp h i k (A + point_mul C (generator C) d) V msg ch \<longleftrightarrow> d = 0 \<or> ch = 0"
proof -
  have "point_mul C (A + point_mul C (generator C) d) (- ch) =
      point_mul C A (- ch) - point_mul C (generator C) (ch * d)"
    unfolding mul_points by (simp add: gen_mul gen_neg mult.commute)
  with assms show ?thesis
    by (auto simp: answers_def Let_def gen_eq_0_iff add_diff_eq)
qed

text \<open>The message of \<open>ia1\<close> is accepted exactly when the response is the honest one, up to a
  challenge that happens to be zero.\<close>

lemma ia1_output_answers_iff:
  assumes out: "ia1_output C M sp sh kp pubs all c msg"
    and h: "pedersen_generator C = Some (pedersen_h pubs)"
    and sc: "nonce_matches C n sc"
    and V: "V = pedersen_commit C (signing_share kp) (signing_share_blinding kp) (pedersen_h pubs)"
  shows "answers C sp (pedersen_h pubs) (key_identifier kp)
      (lag (set (bt_keys (signing_commitments sp))) scalar_from (key_identifier kp) * c)
      (share_point C sp pubs sc (share_response sp pubs n kp c + d)) V msg
      (message_challenge C M sp sh pubs msg c) \<longleftrightarrow>
    d = 0 \<or> message_challenge C M sp sh pubs msg c = 0"
proof -
  let ?i = "key_identifier kp"
  let ?k = "lag (set (bt_keys (signing_commitments sp))) scalar_from ?i * c"
  let ?B = "\<lambda>j. pair_blinding C (bt_keys (signing_commitments sp))
            (encode_commitments C (signing_commitments sp)) (message sp)
            (the (bt_get (pairwise_keys kp) j))"
  let ?ch = "message_challenge C M sp sh pubs msg c"
  let ?A = "point_mul C (generator C) (?k * signing_share kp + (\<Sum>j\<in>peers sp ?i. delta ?i j * ?B j))"
  have ok: "answers C sp (pedersen_h pubs) ?i ?k ?A V msg ?ch"
  proof -
    from out obtain r rb x y where pf: "proof_of C sp (pedersen_h pubs) ?i ?k r rb x y
         (signing_share kp) (signing_share_blinding kp) ?B
         (\<lambda>j. blinding_randomizer C (the (bt_get (pairwise_keys kp) j)) (ia_view_bytes C sp all))
         ?ch (ia1_proof msg)"
      by (auto simp: ia1_output_def Let_def)
    show ?thesis
      by (rule proof_of_answers [OF pf h refl V])
        (use out in \<open>simp add: ia1_output_def Let_def pair_commit_point_def\<close>)
  qed
  have A: "share_point C sp pubs sc (share_response sp pubs n kp c + d) = ?A + point_mul C (generator C) d"
    by (simp add: share_point_honest [OF sc] gen_calc)
  show ?thesis
    unfolding A answers_shift [OF ok] by auto
qed

lemma ia1_verify:
  assumes keys: "valid_keys C coeffs shares pubs" "bt_get shares i = Some kp"
    and sc: "bt_get (signing_commitments sp) i = Some sc" "nonce_matches C n sc"
    and c: "package_challenge C sp pubs = Some c"
    and out: "ia1_output C M sp sh kp pubs all c msg"
    and sh: "share_identifier sh = i" "share_z sh = share_response sp pubs n kp c + d"
  shows "verify_wellformed_proof C M sp sh msg pubs =
    Some (d = 0 \<or> message_challenge C M sp sh pubs msg c = 0)"
proof -
  have i: "key_identifier kp = i" and h: "pedersen_generator C = Some (pedersen_h pubs)"
    using keys by (simp_all add: valid_keys_def)
  obtain vki where vki: "bt_get (partial_verification_keys pubs) i = Some vki"
    and V: "signing_share_commitment vki =
      pedersen_commit C (signing_share kp) (signing_share_blinding kp) (pedersen_h pubs)"
    using keys by (rule valid_keys_commitment)
  have "ia1_identifier msg = share_identifier sh" using out sh i by (simp add: ia1_output_def Let_def)
  then show ?thesis
    using verify_wellformed_eq [of sp sh sc pubs vki c M msg] sc vki c sh i
      ia1_output_answers_iff [OF out h sc(2) V, of d]
    by simp
qed

lemma sign_Ok_D:
  assumes "sign C sp n kp pubs = Ok sh"
  obtains sc c where "bt_get (signing_commitments sp) (key_identifier kp) = Some sc" "nonce_matches C n sc"
    "package_challenge C sp pubs = Some c" "signer_keys_cover sp kp"
    "share_identifier sh = key_identifier kp" "share_z sh = share_response sp pubs n kp c"
    "share_R sh = fst (normalize_share_r C (package_nonce C sp pubs) 1)"
proof -
  obtain sc c where sc: "bt_get (signing_commitments sp) (key_identifier kp) = Some sc" "nonce_matches C n sc"
    and c: "package_challenge C sp pubs = Some c"
    and blind: "is_ok (blinding_scalar C kp (bt_keys (signing_commitments sp))
      (encode_commitments C (signing_commitments sp)) (message sp))"
    using assms by (auto simp: sign_eq Let_def outcome_simps split: option.splits if_splits)
  have cover: "bt_contains_key (pairwise_keys kp) j"
    if "bt_contains_key (signing_commitments sp) j" "j \<noteq> key_identifier kp" for j
    using blind that
    by (auto simp: blinding_scalar_eq bt_contains_key_def [of "pairwise_keys kp"] find_None_iff
        split: option.splits)
  note this' = sign_Ok [OF sc c cover]
  show thesis
    by (rule that [OF sc c]) (use assms this' cover in \<open>auto simp: signer_keys_cover_def peers_def\<close>)
qed

text \<open>
  Special soundness: the scalars extracted from two answers to different challenges, for
  statement points in the subgroup of the generator.
\<close>

lemma answers_extract:
  assumes h: "pedersen_generator C = Some h"
    and ans: "answers C sp h i k A V msg ch" "answers C sp h i k A V msg' ch'" and ne: "ch \<noteq> ch'"
    and same: "t_sig (ia1_proof msg') = t_sig (ia1_proof msg)" "t_key (ia1_proof msg') = t_key (ia1_proof msg)"
      "t_blind (ia1_proof msg') = t_blind (ia1_proof msg)"
      "blinding_commitments msg' = blinding_commitments msg"
    and sub: "A = point_mul C (generator C) a" "V = point_mul C (generator C) v"
      "\<And>j Cj. j \<in> peers sp i \<Longrightarrow> bt_get (blinding_commitments msg) j = Some Cj \<Longrightarrow>
        \<exists>q. Cj = point_mul C (generator C) q"
  shows "\<exists>s w B W. A = point_mul C (generator C) (k * s + (\<Sum>j\<in>peers sp i. delta i j * B j)) \<and>
    V = pedersen_commit C s w h \<and>
    (\<forall>j\<in>peers sp i. bt_get (blinding_commitments msg) j = Some (pedersen_commit C (B j) (W j) h))"
proof -
  obtain u where u: "h = point_mul C (generator C) u" using pedersen_in_subgroup [OF h] by blast
  let ?p = "ia1_proof msg" and ?p' = "ia1_proof msg'"
  define e where "e = inverse (ch - ch')"
  have e: "(ch - ch') * e = 1" using ne by (simp add: e_def)
  have div: "x = (y - y') * e" if "y - x * ch = y' - x * ch'" for x y y'
  proof -
    have "y - y' = x * (ch - ch')" using that by (simp add: algebra_simps)
    then show ?thesis using e by (simp add: mult.assoc)
  qed
  define s where "s = (z_sk ?p - z_sk ?p') * e"
  define w where "w = (z_sk_blinding ?p - z_sk_blinding ?p') * e"
  define zb where "zb = (\<lambda>(m :: ('s, 'p) IA1Message) j. the (bt_get (z_blind (ia1_proof m)) j))"
  define zw where "zw = (\<lambda>(m :: ('s, 'p) IA1Message) j. the (bt_get (z_blind_blinding (ia1_proof m)) j))"
  define B where "B = (\<lambda>j. (zb msg j - zb msg' j) * e)"
  define W where "W = (\<lambda>j. (zw msg j - zw msg' j) * e)"
  define S where "S = (\<lambda>m. \<Sum>j\<in>peers sp i. zb m j * delta i j)"
  have sig: "point_mul C (generator C) (k * z_sk (ia1_proof m) + S m) + point_mul C A (- c) = t_sig (ia1_proof m)"
    if "answers C sp h i k A V m c" for m :: "('s, 'p) IA1Message" and c
    using that by (simp add: answers_def Let_def S_def zb_def)
  have "point_mul C (generator C) (k * z_sk ?p + S msg - a * ch) =
      point_mul C (generator C) (k * z_sk ?p' + S msg' - a * ch')"
    using sig [OF ans(1)] sig [OF ans(2)] same(1) by (simp add: sub(1) gen_calc)
  then have "k * z_sk ?p + S msg - a * ch = k * z_sk ?p' + S msg' - a * ch'"
    by (simp only: gen_eq_iff)
  then have "a = (k * z_sk ?p + S msg - (k * z_sk ?p' + S msg')) * e" by (rule div)
  also have "\<dots> = k * s + (S msg - S msg') * e" by (simp add: s_def algebra_simps)
  also have "(S msg - S msg') * e = (\<Sum>j\<in>peers sp i. delta i j * B j)"
    unfolding S_def B_def sum_subtractf [symmetric] sum_distrib_right
    by (rule sum.cong) (simp_all add: algebra_simps)
  finally have A: "A = point_mul C (generator C) (k * s + (\<Sum>j\<in>peers sp i. delta i j * B j))"
    by (simp add: sub(1))
  have key: "point_mul C (generator C) (z_sk (ia1_proof m) + u * z_sk_blinding (ia1_proof m) - v * c) = t_key (ia1_proof m)"
    if "answers C sp h i k A V m c" for m :: "('s, 'p) IA1Message" and c
    using that by (simp add: answers_def Let_def sub(2) u gen_calc)
  have "z_sk ?p + u * z_sk_blinding ?p - v * ch = z_sk ?p' + u * z_sk_blinding ?p' - v * ch'"
    using key [OF ans(1)] key [OF ans(2)] same(2) by (simp flip: gen_eq_iff)
  then have "v = (z_sk ?p + u * z_sk_blinding ?p - (z_sk ?p' + u * z_sk_blinding ?p')) * e" by (rule div)
  then have "v = s + u * w" by (simp add: s_def w_def algebra_simps)
  then have V: "V = pedersen_commit C s w h"
    by (simp add: sub(2) pedersen_commit_eq u gen_calc)
  have blind: "Some (point_mul C (generator C) (zb m j + u * zw m j) +
        point_mul C (the (bt_get (blinding_commitments m) j)) (- c)) = bt_get (t_blind (ia1_proof m)) j"
    if ans: "answers C sp h i k A V m c" and j: "j \<in> peers sp i" for m :: "('s, 'p) IA1Message" and c j
  proof -
    have "\<forall>j\<in>peers sp i. \<exists>Cj t z w. bt_get (blinding_commitments m) j = Some Cj \<and>
         bt_get (t_blind (ia1_proof m)) j = Some t \<and> bt_get (z_blind (ia1_proof m)) j = Some z \<and>
         bt_get (z_blind_blinding (ia1_proof m)) j = Some w \<and>
         point_mul C (generator C) z + point_mul C h w + point_mul C Cj (- c) = t"
      using ans unfolding answers_def Let_def by (elim conjE)
    from bspec [OF this j] show ?thesis
      by (auto simp: zb_def zw_def u gen_calc)
  qed
  have "bt_get (blinding_commitments msg) j = Some (pedersen_commit C (B j) (W j) h)"
    if j: "j \<in> peers sp i" for j
  proof -
    obtain Cj where Cj: "bt_get (blinding_commitments msg) j = Some Cj"
      using ans(1) j by (auto simp: answers_def Let_def)
    obtain q where q: "Cj = point_mul C (generator C) q" using sub(3) [OF j Cj] by blast
    have "bt_get (t_blind ?p) j = Some (point_mul C (generator C) (zb msg j + u * zw msg j - q * ch))"
      using blind [OF ans(1) j] Cj by (simp add: q gen_calc)
    moreover have "bt_get (t_blind ?p) j = Some (point_mul C (generator C) (zb msg' j + u * zw msg' j - q * ch'))"
      using blind [OF ans(2) j] Cj same(3,4) by (simp add: q gen_calc)
    ultimately have "point_mul C (generator C) (zb msg j + u * zw msg j - q * ch) =
        point_mul C (generator C) (zb msg' j + u * zw msg' j - q * ch')"
      by simp
    then have "zb msg j + u * zw msg j - q * ch = zb msg' j + u * zw msg' j - q * ch'"
      by (simp only: gen_eq_iff)
    then have "q = (zb msg j + u * zw msg j - (zb msg' j + u * zw msg' j)) * e" by (rule div)
    then have "q = B j + u * W j" by (simp add: B_def W_def algebra_simps)
    then show ?thesis by (simp add: Cj q pedersen_commit_eq u gen_calc)
  qed
  with A V show ?thesis by blast
qed

end

section \<open>Witness material\<close>

text \<open>A transcript that concatenates everything it is given.\<close>

definition sample_transcript :: "bytes transcript_lib" where
  "sample_transcript = \<lparr> transcript_new = (\<lambda>label. label),
     append_message = (\<lambda>t label msg. t @ label @ msg),
     challenge_bytes = (\<lambda>t label n. t @ label) \<rparr>"

text \<open>A transcript whose challenge is a fixed byte string.\<close>

definition fixed_transcript :: "byte \<Rightarrow> bytes transcript_lib" where
  "fixed_transcript b = sample_transcript\<lparr> challenge_bytes := (\<lambda>t label n. [b]) \<rparr>"

lemma fixed_transcript_challenge:
  "message_challenge sample_plain (fixed_transcript b) sp sh pubs msg c = of_int (mix [b])"
  by (simp add: message_challenge_def proof_challenge_def fixed_transcript_def Let_def
      secp256k1_plain_def sample_k256_def sample_reduce_def)

lemma sample_sign:
  obtains shares pubs rng' kp sh where
    "generate_with_dealer_from_secret sample_plain sample_rng True 5 3 2 0 = Some (shares, pubs, rng')"
    "dealt_signers sample_package shares" "bt_get shares 3 = Some kp"
    "sign sample_plain sample_package (the (bt_get sample_nonces 3)) kp pubs = Ok sh"
proof -
  obtain shares pubs rng' where
    gen: "generate_with_dealer_from_secret sample_plain sample_rng True 5 3 2 0 = Some (shares, pubs, rng')"
    and dealt: "dealt_signers sample_package shares"
    by (rule sample_keys)
  obtain c where c: "package_challenge sample_plain sample_package pubs = Some c"
    using sample_challenge by blast
  obtain coeffs where keys: "valid_keys sample_plain coeffs shares pubs"
    using dealer_valid [OF sample_plain_contract gen] by blast
  have mem: "bt_contains_key (signing_commitments sample_package) 3"
    using sample_package_keys by (simp flip: bt_keys_mem)
  then have "bt_contains_key shares 3" using dealt by (simp add: dealt_signers_def)
  then obtain kp where "bt_get shares 3 = Some kp" by (rule bt_contains_keyE)
  with suite_contract.honest_sign_Ok [OF sample_plain_contract keys dealt sample_package_honest c mem]
  show thesis using gen dealt that by auto
qed

section \<open>The properties\<close>

text \<open>
  (C2) An honest signer's first abort message is accepted: whatever the other signers put
  into the package, if \<open>sign\<close> gave the signer its share then \<open>ia1\<close> returns a message for
  this share, and the verifier accepts its proof, whatever the randomness and the hashes.
\<close>

theorem honest_ia1_accepted:
  assumes "suite_contract C"
    and "generate_with_dealer_from_secret C G ovf sk n_max n_min rng = Some (shares, pubs, rng')"
    and "bt_get shares i = Some kp" "sign C sp n kp pubs = Ok sh"
  shows "\<exists>msg rng2. ia1 C M G' sp sh kp pubs all rng1 = Ok (msg, rng2) \<and>
    verify_wellformed_proof C M sp sh msg pubs = Some True"
proof -
  obtain coeffs where keys: "valid_keys C coeffs shares pubs"
    using dealer_valid [OF assms(1,2)] by blast
  have i: "key_identifier kp = i" using keys assms(3) by (simp add: valid_keys_def)
  obtain sc c where sc: "bt_get (signing_commitments sp) i = Some sc" "nonce_matches C n sc"
    and c: "package_challenge C sp pubs = Some c" and cover: "signer_keys_cover sp kp"
    and sh: "share_identifier sh = i" "share_z sh = suite_contract.share_response C sp pubs n kp c"
    using suite_contract.sign_Ok_D [OF assms(1,4)] i by metis
  have "bt_contains_key (signing_commitments sp) i" using sc by (simp add: bt_contains_key_def)
  then obtain msg rng2 where "ia1 C M G' sp sh kp pubs all rng1 = Ok (msg, rng2)"
    and out: "ia1_output C M sp sh kp pubs all c msg"
    using suite_contract.ia1_Ok [OF assms(1) _ _ cover c] sh(1) i by metis
  then show ?thesis
    using suite_contract.ia1_verify [OF assms(1) keys assms(3) sc c out sh(1), of 0] sh(2) by simp
qed

lemma honest_ia1_accepted_witness:
  "\<exists>kp pubs sh msg rng2.
     ia1 sample_plain sample_transcript sample_rng sample_package sh kp pubs bt_empty 9 = Ok (msg, rng2) \<and>
     verify_wellformed_proof sample_plain sample_transcript sample_package sh msg pubs = Some True"
proof -
  obtain shares pubs rng' kp sh where
    gen: "generate_with_dealer_from_secret sample_plain sample_rng True 5 3 2 0 = Some (shares, pubs, rng')"
    and kp: "bt_get shares 3 = Some kp"
    and sh: "sign sample_plain sample_package (the (bt_get sample_nonces 3)) kp pubs = Ok sh"
    by (rule sample_sign)
  from honest_ia1_accepted [OF sample_plain_contract gen kp sh, of sample_transcript sample_rng bt_empty 9]
  show ?thesis by blast
qed


text \<open>The first messages do not depend on the hash.\<close>

lemma prove_wellformed_first:
  assumes "prove_wellformed C M G sp sh kp pubs bv br bc rng = Some (pf, r)"
    and "prove_wellformed C M' G sp sh kp pubs bv br bc rng = Some (pf', r')"
  shows "t_sig pf' = t_sig pf \<and> t_key pf' = t_key pf \<and> t_blind pf' = t_blind pf"
  using assms by (auto simp: prove_wellformed_def Let_def bind_eq_Some_conv split: prod.splits)

lemma ia1_first:
  assumes "ia1 C M G sp sh kp pubs all rng = Ok (msg, r)" "ia1 C M' G sp sh kp pubs all rng = Ok (msg', r')"
  shows "t_sig (ia1_proof msg') = t_sig (ia1_proof msg) \<and> t_key (ia1_proof msg') = t_key (ia1_proof msg) \<and>
    t_blind (ia1_proof msg') = t_blind (ia1_proof msg) \<and> blinding_commitments msg' = blinding_commitments msg"
  using assms
  by (auto simp: ia1_def Let_def and_then_Ok_iff unwrap_Ok_iff dest: prove_wellformed_first
      split: if_splits prod.splits)


end
