(* ===== verification/Abort_Decide.thy ===== *)
theory Abort_Decide
  imports Abort_Proof
begin

text \<open>
  The decision of src/src/ia.rs: \<open>ia2\<close> in closed form, \<open>decide\<close> as the union of the verdicts
  of its three loops, and what follows: who is blamed, and that a signer that follows the
  protocol is not.
\<close>

section \<open>ia2\<close>

text \<open>The commitment of \<open>frm\<close> about \<open>about\<close>, as the two loops look it up.\<close>

definition commitment_about ::
  "(Identifier, ('s, 'p) IA1Message) btree_map \<Rightarrow> Identifier \<Rightarrow> Identifier \<Rightarrow> 'p option" where
  "commitment_about msgs frm about =
     Option.bind (bt_get msgs frm) (\<lambda>m. bt_get (blinding_commitments m) about)"

text \<open>A decision opens exactly the keys of the peers whose commitments disagree.\<close>

definition ia2_output ::
  "'s KeyPackage \<Rightarrow> 'p SigningPackage \<Rightarrow> (Identifier, ('s, 'p) IA1Message) btree_map \<Rightarrow> IA2Decision \<Rightarrow>
   bool" where
  "ia2_output kp sp msgs dec \<longleftrightarrow>
     (let i = key_identifier kp in
      ia2_identifier dec = i \<and>
      (\<forall>j\<in>peers sp i. commitment_about msgs i j \<noteq> None \<and> commitment_about msgs j i \<noteq> None \<and>
         (commitment_about msgs i j \<noteq> commitment_about msgs j i \<longrightarrow> bt_contains_key (pairwise_keys kp) j)) \<and>
      (\<forall>j. bt_get (opened_pairwise_keys dec) j =
         (if j \<in> peers sp i \<and> commitment_about msgs i j \<noteq> commitment_about msgs j i
          then bt_get (pairwise_keys kp) j else None)))"

lemma ia2_step_Ok:
  assumes "ia2_step kp msgs own acc j = Ok acc'" "bt_get msgs (key_identifier kp) = Some own"
    "j \<noteq> key_identifier kp"
  shows "\<exists>C_ij C_ji. commitment_about msgs (key_identifier kp) j = Some C_ij \<and>
    commitment_about msgs j (key_identifier kp) = Some C_ji \<and>
    (if C_ij = C_ji then acc' = acc
     else \<exists>k. bt_get (pairwise_keys kp) j = Some k \<and> acc' = bt_insert j k acc)"
  using assms by (fastforce simp: ia2_step_def Let_def outcome_simps commitment_about_def split: if_splits)

lemma ia2_loop:
  assumes "try_fold (ia2_step kp msgs own) acc ids = Ok res"
    and i: "i = key_identifier kp" and own: "bt_get msgs i = Some own"
  shows "(\<forall>j\<in>set ids - {i}. commitment_about msgs i j \<noteq> None \<and> commitment_about msgs j i \<noteq> None \<and>
      (commitment_about msgs i j \<noteq> commitment_about msgs j i \<longrightarrow> bt_contains_key (pairwise_keys kp) j)) \<and>
    (\<forall>j. bt_get res j =
      (if j \<in> set ids - {i} \<and> commitment_about msgs i j \<noteq> commitment_about msgs j i
       then bt_get (pairwise_keys kp) j else bt_get acc j))"
  using assms(1)
proof (induction ids arbitrary: acc)
  case (Cons j ids)
  from Cons.prems obtain acc' where acc': "ia2_step kp msgs own acc j = Ok acc'"
    and rest: "try_fold (ia2_step kp msgs own) acc' ids = Ok res"
    by (auto simp: outcome_simps)
  show ?case
  proof (cases "j = i")
    case True
    then have "acc' = acc" using acc' by (simp add: ia2_step_def Let_def i)
    with True Cons.IH [OF rest] show ?thesis by auto
  next
    case False
    with ia2_step_Ok [OF acc'] own i obtain C_ij C_ji where
      "commitment_about msgs i j = Some C_ij" "commitment_about msgs j i = Some C_ji"
      "if C_ij = C_ji then acc' = acc
       else \<exists>k. bt_get (pairwise_keys kp) j = Some k \<and> acc' = bt_insert j k acc"
      by auto
    with Cons.IH [OF rest] False show ?thesis
      by (auto simp: bt_contains_key_def split: if_splits)
  qed
qed simp

lemma ia2_Ok:
  assumes "ia2 kp sp msgs = Ok dec"
  shows "ia2_output kp sp msgs dec"
proof -
  from assms obtain own res where own: "bt_get msgs (key_identifier kp) = Some own"
    and loop: "try_fold (ia2_step kp msgs own) bt_empty (bt_keys (signing_commitments sp)) = Ok res"
    and dec: "dec = \<lparr> ia2_identifier = key_identifier kp, opened_pairwise_keys = res \<rparr>"
    by (auto simp: ia2_def Let_def outcome_simps)
  from ia2_loop [OF loop refl own] show ?thesis
    unfolding set_keys_peers by (simp add: ia2_output_def Let_def dec)
qed

section \<open>decide as a union of verdicts\<close>

lemma foldl_union: "foldl (\<lambda>m x. m \<union> f x) m0 xs = m0 \<union> (\<Union>x\<in>set xs. f x)"
  by (induction xs arbitrary: m0) auto

text \<open>The verdict on the proof of a signer: \<open>Some False\<close> blames it.\<close>

definition proof_verdict ::
  "('s :: field, 'p :: ab_group_add, 'h) ciphersuite \<Rightarrow> 't transcript_lib \<Rightarrow>
   'p SigningPackage \<Rightarrow> 'p PublicKeyPackage \<Rightarrow> (Identifier, ('s, 'p) SignatureShare) btree_map \<Rightarrow>
   (Identifier, ('s, 'p) IA1Message) btree_map \<Rightarrow> Identifier \<Rightarrow> bool option" where
  "proof_verdict C M sp pubs shares msgs i =
     (case (bt_get shares i, bt_get msgs i) of
        (Some sh, Some msg) \<Rightarrow> verify_wellformed_proof C M sp sh msg pubs
      | _ \<Rightarrow> Some False)"

definition opened_verdict ::
  "('s :: field, 'p :: ab_group_add, 'h) ciphersuite \<Rightarrow> 'p SigningPackage \<Rightarrow> 'p PublicKeyPackage \<Rightarrow>
   (Identifier, ('s, 'p) SignatureShare) btree_map \<Rightarrow> (Identifier, ('s, 'p) IA1Message) btree_map \<Rightarrow>
   Identifier \<Rightarrow> Identifier \<Rightarrow> bytes \<Rightarrow> Identifier set" where
  "opened_verdict C sp pubs shares msgs accuser peer k =
     (if pair_commitment (partial_verification_keys pubs) accuser peer \<noteq>
         Some (hash_pairwise_key_commitment C k) then {accuser}
      else if commitment_about msgs peer accuser \<noteq>
         Some (pair_commit_point C sp pubs (ia_view_bytes C sp shares) k) then {peer}
      else {})"

definition pair_verdict ::
  "(Identifier, ('s, 'p) IA1Message) btree_map \<Rightarrow> (Identifier, IA2Decision) btree_map \<Rightarrow>
   Identifier \<Rightarrow> Identifier \<Rightarrow> Identifier set" where
  "pair_verdict msgs decs i j = decide_pair_step msgs decs i {} j"

lemma decide_proof_loop:
  "opt_fold (decide_proof_step C M sp pubs shares msgs) m0 ids =
     (if \<forall>i\<in>set ids. proof_verdict C M sp pubs shares msgs i \<noteq> None
      then Some (m0 \<union> {i \<in> set ids. proof_verdict C M sp pubs shares msgs i = Some False}) else None)"
proof (induction ids arbitrary: m0)
  case (Cons i ids)
  have step: "decide_proof_step C M sp pubs shares msgs m i =
      map_option (\<lambda>ok. if ok then m else insert i m) (proof_verdict C M sp pubs shares msgs i)" for m
    by (simp add: decide_proof_step_def proof_verdict_def split: option.splits)
  show ?case
  proof (cases "proof_verdict C M sp pubs shares msgs i")
    case None
    then show ?thesis by (simp add: step)
  next
    case (Some ok)
    then show ?thesis by (auto simp: step Cons.IH)
  qed
qed simp

lemma decide_opened_step_eq:
  assumes "b_base = blinding_base C (encode_commitments C (signing_commitments sp)) (message sp)
      (encode_signer_set (bt_keys (signing_commitments sp)))"
  shows "decide_opened_step C pubs msgs b_base (ia_view_bytes C sp shares) a m (p, k) =
    m \<union> opened_verdict C sp pubs shares msgs a p k"
  by (auto simp: decide_opened_step_def opened_verdict_def pair_commitment_def commitment_about_def
      pair_commit_point_def pair_blinding_def assms Let_def split: option.splits)

lemma decide_pair_step_eq: "decide_pair_step msgs decs i m j = m \<union> pair_verdict msgs decs i j"
  by (auto simp: decide_pair_step_def pair_verdict_def Let_def split: option.splits)

lemma decide_eq:
  "decide C M sp pubs shares msgs decs =
     (if \<forall>i. bt_contains_key (signing_commitments sp) i \<longrightarrow> proof_verdict C M sp pubs shares msgs i \<noteq> None
      then Some ({i. bt_contains_key (signing_commitments sp) i \<and>
                     proof_verdict C M sp pubs shares msgs i = Some False}
        \<union> {x. \<exists>a d p k. bt_get decs a = Some d \<and> bt_get (opened_pairwise_keys d) p = Some k \<and>
               x \<in> opened_verdict C sp pubs shares msgs a p k}
        \<union> {x. \<exists>i j. bt_contains_key (signing_commitments sp) i \<and> bt_contains_key (signing_commitments sp) j \<and>
               x \<in> pair_verdict msgs decs i j})
      else None)"
proof -
  let ?ids = "bt_keys (signing_commitments sp)"
  let ?base = "blinding_base C (encode_commitments C (signing_commitments sp)) (message sp) (encode_signer_set ?ids)"
  let ?view = "ia_view_bytes C sp shares"
  have opened: "foldl (decide_opened_step C pubs msgs ?base ?view a) m ps =
      m \<union> (\<Union>(p, k)\<in>set ps. opened_verdict C sp pubs shares msgs a p k)" for a m ps
    using foldl_union [of "\<lambda>(p, k). opened_verdict C sp pubs shares msgs a p k" m ps]
      decide_opened_step_eq [OF refl, of C pubs msgs sp shares a]
    by (simp add: case_prod_unfold) (metis (no_types, lifting) foldl_cong prod.collapse)
  have outer: "foldl (\<lambda>m (a, d). foldl (decide_opened_step C pubs msgs ?base ?view a) m
        (bt_entries (opened_pairwise_keys d))) m ds =
      m \<union> (\<Union>(a, d)\<in>set ds. \<Union>(p, k)\<in>set (bt_entries (opened_pairwise_keys d)).
        opened_verdict C sp pubs shares msgs a p k)" for m ds
    unfolding opened using foldl_union by (simp add: case_prod_unfold)
  have pairs: "foldl (\<lambda>m i. foldl (decide_pair_step msgs decs i) m ?ids) m ?ids =
      m \<union> (\<Union>i\<in>set ?ids. \<Union>j\<in>set ?ids. pair_verdict msgs decs i j)" for m
  proof -
    have "decide_pair_step msgs decs i = (\<lambda>m j. m \<union> pair_verdict msgs decs i j)" for i
      by (simp add: fun_eq_iff decide_pair_step_eq)
    then show ?thesis by (simp add: foldl_union)
  qed
  have sets: "(\<Union>(a, d)\<in>set (bt_entries decs). \<Union>(p, k)\<in>set (bt_entries (opened_pairwise_keys d)).
        opened_verdict C sp pubs shares msgs a p k) =
      {x. \<exists>a d p k. bt_get decs a = Some d \<and> bt_get (opened_pairwise_keys d) p = Some k \<and>
               x \<in> opened_verdict C sp pubs shares msgs a p k}"
    by (simp add: set_eq_iff Bex_def split_paired_Ex btm.items_mem_iff)
  show ?thesis
    unfolding decide_def Let_def decide_proof_loop outer pairs sets by auto
qed

text \<open>A disagreement that a signer does not open is held against it.\<close>

lemma unopened_blamed:
  assumes "decide C M sp pubs shares msgs decs = Some bad"
    and ij: "bt_contains_key (signing_commitments sp) i" "bt_contains_key (signing_commitments sp) j"
    and pair: "i \<noteq> j" "bt_contains_key msgs i" "bt_contains_key msgs j" "commitment_about msgs j i \<noteq> None"
      "commitment_about msgs i j \<noteq> commitment_about msgs j i"
      "commitment_about msgs i j = None \<or> \<not> has_opened decs i j"
  shows "i \<in> bad"
proof -
  have "i \<in> pair_verdict msgs decs i j \<union> pair_verdict msgs decs j i"
    using pair by (cases i j rule: linorder_cases)
      (auto simp: pair_verdict_def decide_pair_step_def Let_def commitment_about_def bt_contains_key_def
        split: option.splits)
  then show ?thesis using assms(1) ij by (auto simp: decide_eq split: if_splits)
qed

lemma silent_blamed:
  assumes "decide C M sp pubs shares msgs decs = Some bad"
    and "bt_contains_key (signing_commitments sp) i" "bt_get shares i = None \<or> bt_get msgs i = None"
  shows "i \<in> bad"
  using assms by (auto simp: decide_eq proof_verdict_def split: if_splits option.splits)

section \<open>Signers that follow the protocol\<close>

text \<open>
  Signer \<open>i\<close> with package \<open>kp\<close> and nonces \<open>n\<close> has published the response of \<open>sign\<close> (under
  any \<open>R\<close>), the message of \<open>ia1\<close> for the shares everybody sees, and the decision of \<open>ia2\<close>.
\<close>

definition responds_honestly ::
  "('s :: field, 'p :: ab_group_add, 'h) ciphersuite \<Rightarrow> 't transcript_lib \<Rightarrow> ('r, 's) rng_lib \<Rightarrow>
   'p SigningPackage \<Rightarrow> 'p PublicKeyPackage \<Rightarrow> (Identifier, ('s, 'p) SignatureShare) btree_map \<Rightarrow>
   (Identifier, ('s, 'p) IA1Message) btree_map \<Rightarrow> (Identifier, IA2Decision) btree_map \<Rightarrow>
   's KeyPackage \<Rightarrow> 's SigningNonces \<Rightarrow> bool" where
  "responds_honestly C M G sp pubs shares msgs decs kp n \<longleftrightarrow>
     (let i = key_identifier kp in
      \<exists>sh sh' msg rng rng' dec.
        sign C sp n kp pubs = Ok sh \<and>
        bt_get shares i = Some sh' \<and> share_identifier sh' = i \<and> share_z sh' = share_z sh \<and>
        ia1 C M G sp sh' kp pubs shares rng = Ok (msg, rng') \<and> bt_get msgs i = Some msg \<and>
        ia2 kp sp msgs = Ok dec \<and> bt_get decs i = Some dec)"

text \<open>Decisions come from signers of the package, and a key they open is not a collision.\<close>

definition accusers_in_session :: "'p SigningPackage \<Rightarrow> (Identifier, IA2Decision) btree_map \<Rightarrow> bool" where
  "accusers_in_session sp decs \<longleftrightarrow>
     (\<forall>a. bt_contains_key decs a \<longrightarrow> bt_contains_key (signing_commitments sp) a)"

definition opens_no_collision ::
  "('s, 'p, 'h) ciphersuite \<Rightarrow> 's KeyShares \<Rightarrow> (Identifier, IA2Decision) btree_map \<Rightarrow> Identifier \<Rightarrow> bool" where
  "opens_no_collision C keys decs i \<longleftrightarrow>
     (\<forall>a d k k'. bt_get decs a = Some d \<longrightarrow> bt_get (opened_pairwise_keys d) i = Some k \<longrightarrow>
        pair_key keys a i = Some k' \<longrightarrow>
        hash_pairwise_key_commitment C k = hash_pairwise_key_commitment C k' \<longrightarrow> k = k')"

text \<open>Everything the decision sees of such a signer.\<close>

definition honest_evidence ::
  "('s :: field, 'p :: ab_group_add, 'h) ciphersuite \<Rightarrow> 't transcript_lib \<Rightarrow>
   'p SigningPackage \<Rightarrow> 'p PublicKeyPackage \<Rightarrow> (Identifier, ('s, 'p) SignatureShare) btree_map \<Rightarrow>
   (Identifier, ('s, 'p) IA1Message) btree_map \<Rightarrow> (Identifier, IA2Decision) btree_map \<Rightarrow>
   's KeyShares \<Rightarrow> Identifier \<Rightarrow> bool" where
  "honest_evidence C M sp pubs shares msgs decs keys i \<longleftrightarrow>
     bt_contains_key (signing_commitments sp) i \<and> package_challenge C sp pubs \<noteq> None \<and>
     proof_verdict C M sp pubs shares msgs i = Some True \<and>
     (\<forall>j. commitment_about msgs i j = (if j \<in> peers sp i
        then Some (pair_commit_point C sp pubs (ia_view_bytes C sp shares) (the (pair_key keys i j)))
        else None)) \<and>
     (\<forall>j\<in>peers sp i. pair_key keys i j \<noteq> None \<and> commitment_about msgs j i \<noteq> None) \<and>
     (\<exists>dec. bt_get decs i = Some dec \<and> (\<forall>j. bt_get (opened_pairwise_keys dec) j =
        (if j \<in> peers sp i \<and> commitment_about msgs i j \<noteq> commitment_about msgs j i
         then pair_key keys i j else None)))"

context suite_contract
begin

lemma responds_honestly_evidence:
  assumes keys: "valid_keys C coeffs keys pubs" and kp: "bt_get keys i = Some kp"
    and hon: "responds_honestly C M G sp pubs shares msgs decs kp n"
  shows "honest_evidence C M sp pubs shares msgs decs keys i"
proof -
  have i: "key_identifier kp = i" using keys kp by (simp add: valid_keys_def)
  from hon i obtain sh sh' msg rng rng' dec where sign: "sign C sp n kp pubs = Ok sh"
    and sh': "bt_get shares i = Some sh'" "share_identifier sh' = i" "share_z sh' = share_z sh"
    and ia1: "ia1 C M G sp sh' kp pubs shares rng = Ok (msg, rng')" "bt_get msgs i = Some msg"
    and ia2: "ia2 kp sp msgs = Ok dec" "bt_get decs i = Some dec"
    by (auto simp: responds_honestly_def Let_def)
  obtain sc c where sc: "bt_get (signing_commitments sp) i = Some sc" "nonce_matches C n sc"
    and c: "package_challenge C sp pubs = Some c" and cover: "signer_keys_cover sp kp"
    and z: "share_z sh = share_response sp pubs n kp c"
    using sign_Ok_D [OF sign] i by metis
  have mem: "bt_contains_key (signing_commitments sp) i" using sc by (simp add: bt_contains_key_def)
  obtain msg' rng'' where "ia1 C M G sp sh' kp pubs shares rng = Ok (msg', rng'')"
    "ia1_output C M sp sh' kp pubs shares c msg'"
    using ia1_Ok [OF _ _ cover c, of sh' M G shares rng] sh' i mem by auto
  with ia1 have out: "ia1_output C M sp sh' kp pubs shares c msg" by simp
  have "verify_wellformed_proof C M sp sh' msg pubs = Some True"
    using ia1_verify [OF keys kp sc c out sh'(2), of 0] sh'(3) z by simp
  then have proof_ok: "proof_verdict C M sp pubs shares msgs i = Some True"
    using sh' ia1 by (simp add: proof_verdict_def)
  have pk: "pair_key keys i j = bt_get (pairwise_keys kp) j" for j
    by (simp add: pair_key_def kp)
  have own: "commitment_about msgs i j = (if j \<in> peers sp i
      then Some (pair_commit_point C sp pubs (ia_view_bytes C sp shares) (the (pair_key keys i j))) else None)" for j
    using out ia1(2) i by (simp add: ia1_output_def Let_def commitment_about_def pk)
  have "\<forall>j\<in>peers sp i. pair_key keys i j \<noteq> None"
    using cover i by (simp add: signer_keys_cover_def pk bt_contains_key_def)
  with ia2_Ok [OF ia2(1)] i ia2(2) mem c proof_ok own show ?thesis
    by (auto simp: honest_evidence_def ia2_output_def Let_def pk)
qed

lemma honest_not_blamed:
  assumes keys: "valid_keys C coeffs keys pubs"
    and ev: "honest_evidence C M sp pubs shares msgs decs keys i"
    and acc: "accusers_in_session sp decs" and coll: "opens_no_collision C keys decs i"
    and bad: "decide C M sp pubs shares msgs decs = Some bad"
  shows "i \<notin> bad"
proof -
  let ?view = "ia_view_bytes C sp shares"
  have sym: "pair_key keys a b = pair_key keys b a" for a b
    using keys by (simp add: valid_keys_def)
  have pub: "pair_commitment (partial_verification_keys pubs) a b =
      map_option (hash_pairwise_key_commitment C) (pair_key keys a b)" for a b
    using keys by (simp add: valid_keys_def)
  have mem: "bt_contains_key (signing_commitments sp) i" using ev by (simp add: honest_evidence_def)
  obtain dec where dec: "bt_get decs i = Some dec"
    and opened: "\<And>j. bt_get (opened_pairwise_keys dec) j =
        (if j \<in> peers sp i \<and> commitment_about msgs i j \<noteq> commitment_about msgs j i
         then pair_key keys i j else None)"
    using ev by (auto simp: honest_evidence_def)
  have peer: "j \<in> peers sp i \<longleftrightarrow> bt_contains_key (signing_commitments sp) j \<and> j \<noteq> i" for j
    by (simp add: peers_def)
  have first: "proof_verdict C M sp pubs shares msgs i = Some True"
    using ev by (simp add: honest_evidence_def)
  have second: "i \<notin> opened_verdict C sp pubs shares msgs a p k"
    if d: "bt_get decs a = Some d" "bt_get (opened_pairwise_keys d) p = Some k" for a d p k
  proof (cases "a = i")
    case True
    with d dec opened [of p] have "p \<in> peers sp i" "pair_key keys i p = Some k"
      by (auto split: if_splits)
    with True show ?thesis by (auto simp: opened_verdict_def pub peer)
  next
    case False
    have a: "a \<in> peers sp i"
      using acc d(1) False by (auto simp: accusers_in_session_def peer bt_contains_key_def)
    then obtain k' where k': "pair_key keys i a = Some k'"
      using ev by (auto simp: honest_evidence_def)
    have "commitment_about msgs i a = Some (pair_commit_point C sp pubs ?view k')"
      using ev a k' by (simp add: honest_evidence_def)
    moreover have "k = k'" if "p = i" "hash_pairwise_key_commitment C k' = hash_pairwise_key_commitment C k"
      using coll d that k' sym [of a i] by (auto simp: opens_no_collision_def)
    ultimately show ?thesis
      using False k' sym [of a i] by (auto simp: opened_verdict_def pub)
  qed
  have third: "i \<notin> pair_verdict msgs decs x y"
    if xy: "bt_contains_key (signing_commitments sp) x" "bt_contains_key (signing_commitments sp) y" for x y
  proof (cases "x < y")
    case True
    have about: "commitment_about msgs i j \<noteq> None" "commitment_about msgs j i \<noteq> None"
      "commitment_about msgs i j \<noteq> commitment_about msgs j i \<Longrightarrow> has_opened decs i j"
      if "j \<in> peers sp i" for j
      using ev that opened [of j] dec
      by (auto simp: honest_evidence_def has_opened_def bt_contains_key_def)
    have "x \<in> peers sp i \<or> x = i" "y \<in> peers sp i \<or> y = i" using xy by (auto simp: peer)
    then show ?thesis
      using True about [of x] about [of y]
      by (auto simp: pair_verdict_def decide_pair_step_def Let_def commitment_about_def
          split: option.splits bind_splits)
  next
    case False
    then have "y \<le> x" by simp
    then show ?thesis by (simp add: pair_verdict_def decide_pair_step_def)
  qed
  show ?thesis
    using bad first second third by (auto simp: decide_eq split: if_splits)
qed

lemma verdict_total:
  assumes "package_challenge C sp pubs \<noteq> None"
  shows "proof_verdict C M sp pubs shares msgs i \<noteq> None"
  using assms
  by (auto simp: proof_verdict_def verify_wellformed_proof_def Let_def sig_challenge_eq lagrange_total
      split: option.splits prod.splits)

lemma decide_total:
  assumes "package_challenge C sp pubs \<noteq> None"
  shows "\<exists>bad. decide C M sp pubs shares msgs decs = Some bad"
  using verdict_total [OF assms, of M shares msgs] by (simp add: decide_eq)

text \<open>Only signers of the package, accusers and the peers they name can be blamed.\<close>

lemma opened_verdict_names: "x \<in> opened_verdict C sp pubs shares msgs a p k \<Longrightarrow> x = a \<or> x = p"
  by (auto simp: opened_verdict_def split: if_splits)

lemma pair_verdict_names: "x \<in> pair_verdict msgs decs i j \<Longrightarrow> x = i \<or> x = j"
  by (auto simp: pair_verdict_def decide_pair_step_def Let_def split: option.splits if_splits)

lemma decide_blames_known:
  assumes "decide C M sp pubs shares msgs decs = Some bad" "i \<in> bad"
  shows "bt_contains_key (signing_commitments sp) i \<or> bt_contains_key decs i \<or>
    (\<exists>a d. bt_get decs a = Some d \<and> bt_contains_key (opened_pairwise_keys d) i)"
proof -
  from assms consider "bt_contains_key (signing_commitments sp) i"
    | a d p k where "bt_get decs a = Some d" "bt_get (opened_pairwise_keys d) p = Some k"
        "i \<in> opened_verdict C sp pubs shares msgs a p k"
    | x y where "bt_contains_key (signing_commitments sp) x" "bt_contains_key (signing_commitments sp) y"
        "i \<in> pair_verdict msgs decs x y"
    unfolding decide_eq by (auto split: if_splits)
  then show ?thesis
  proof cases
    case 2
    then have "bt_contains_key decs a" "bt_contains_key (opened_pairwise_keys d) p"
      by (simp_all add: bt_contains_key_def)
    then show ?thesis using opened_verdict_names [OF 2(3)] 2(1) by blast
  next
    case 3
    then show ?thesis using pair_verdict_names [OF 3(3)] by auto
  qed simp
qed

lemma all_honest_no_blame:
  assumes keys: "valid_keys C coeffs keys pubs"
    and ev: "\<And>i. bt_contains_key (signing_commitments sp) i \<Longrightarrow>
      honest_evidence C M sp pubs shares msgs decs keys i"
    and acc: "accusers_in_session sp decs" and c: "package_challenge C sp pubs \<noteq> None"
  shows "decide C M sp pubs shares msgs decs = Some {}"
proof -
  obtain bad where bad: "decide C M sp pubs shares msgs decs = Some bad"
    using decide_total [OF c] by blast
  have opened: "j \<in> peers sp a \<and> pair_key keys a j = Some k"
    if "bt_get decs a = Some d" "bt_get (opened_pairwise_keys d) j = Some k" for a d j k
  proof -
    have "bt_contains_key (signing_commitments sp) a"
      using acc that by (simp add: accusers_in_session_def bt_contains_key_def)
    from ev [OF this] that show ?thesis by (auto simp: honest_evidence_def split: if_splits)
  qed
  have "i \<notin> bad" if i: "bt_contains_key (signing_commitments sp) i" for i
  proof -
    have "opens_no_collision C keys decs i"
      using opened by (fastforce simp: opens_no_collision_def)
    then show ?thesis by (rule honest_not_blamed [OF keys ev [OF i] acc _ bad])
  qed
  moreover have "bt_contains_key (signing_commitments sp) i" if "i \<in> bad" for i
    using decide_blames_known [OF bad that] acc opened
    by (fastforce simp: accusers_in_session_def peers_def bt_contains_key_def [of "opened_pairwise_keys _"])
  ultimately have "bad = {}" by blast
  with bad show ?thesis by simp
qed

text \<open>When all responses are there, all messages and decisions can be formed.\<close>

lemma ia2_returns:
  assumes "bt_contains_key msgs (key_identifier kp)" "signer_keys_cover sp kp"
    and "\<And>j. j \<in> peers sp (key_identifier kp) \<Longrightarrow>
      commitment_about msgs (key_identifier kp) j \<noteq> None \<and> commitment_about msgs j (key_identifier kp) \<noteq> None"
  shows "\<exists>dec. ia2 kp sp msgs = Ok dec"
proof -
  let ?i = "key_identifier kp"
  obtain own where own: "bt_get msgs ?i = Some own" using assms(1) by (rule bt_contains_keyE)
  have "\<exists>b. ia2_step kp msgs own acc j = Ok b" if j: "j \<in> set (bt_keys (signing_commitments sp))" for acc j
  proof (cases "j = ?i")
    case False
    then have peer: "j \<in> peers sp ?i" using j by (simp add: peers_def)
    obtain C_ij where "bt_get (blinding_commitments own) j = Some C_ij"
      using assms(3) [OF peer] own by (auto simp: commitment_about_def)
    moreover obtain m C_ji where "bt_get msgs j = Some m" "bt_get (blinding_commitments m) ?i = Some C_ji"
      using assms(3) [OF peer] by (auto simp: commitment_about_def bind_eq_Some_conv)
    moreover obtain k where "bt_get (pairwise_keys kp) j = Some k"
      using assms(2) peer by (auto simp: signer_keys_cover_def elim: bt_contains_keyE)
    ultimately show ?thesis using False by (simp add: ia2_step_def Let_def)
  qed (simp add: ia2_step_def Let_def)
  from try_fold_returns [of "bt_keys (signing_commitments sp)" "ia2_step kp msgs own" bt_empty, OF this]
  show ?thesis by (auto simp: ia2_def Let_def own)
qed

lemma honest_responses:
  assumes "valid_keys C coeffs keys pubs" "dealt_signers sp keys" "honest_package C N sp"
    "package_challenge C sp pubs = Some c" and out: "shares_of C sp N keys pubs out"
    and i: "bt_contains_key (signing_commitments sp) i"
  shows "\<exists>sh sh'. sign C sp (the (bt_get N i)) (the (bt_get keys i)) pubs = Ok sh \<and>
    bt_get out i = Some sh' \<and> share_identifier sh' = i \<and> share_z sh' = share_z sh"
proof -
  have "bt_contains_key out i" using out i by (simp add: shares_of_def)
  then obtain sh where "bt_get out i = Some sh" by (rule bt_contains_keyE)
  then show ?thesis
    using out honest_sign_Ok [OF assms(1-4) i] by (auto simp: shares_of_def)
qed

lemma abort_rounds_return:
  assumes keys: "valid_keys C coeffs keys pubs" and dealt: "dealt_signers sp keys"
    and signed: "\<And>i. bt_contains_key (signing_commitments sp) i \<Longrightarrow>
      \<exists>sh sh'. sign C sp (N i) (the (bt_get keys i)) pubs = Ok sh \<and> bt_get shares i = Some sh' \<and>
        share_identifier sh' = i \<and> share_z sh' = share_z sh"
  shows "\<exists>msgs decs. accusers_in_session sp decs \<and>
    (\<forall>i. bt_contains_key (signing_commitments sp) i \<longrightarrow>
      responds_honestly C M G sp pubs shares msgs decs (the (bt_get keys i)) (N i))"
proof -
  let ?ids = "bt_keys (signing_commitments sp)"
  let ?kp = "\<lambda>i. the (bt_get keys i)" and ?sh = "\<lambda>i. the (bt_get shares i)"
  have kp: "bt_get keys i = Some (?kp i)" "key_identifier (?kp i) = i"
    if i: "bt_contains_key (signing_commitments sp) i" for i
  proof -
    have "bt_contains_key keys i" using dealt i by (simp add: dealt_signers_def)
    with keys obtain kp where "bt_get keys i = Some kp" "key_identifier kp = i" by (rule valid_keys_get)
    then show "bt_get keys i = Some (?kp i)" "key_identifier (?kp i) = i" by simp_all
  qed
  have "\<exists>msg. (\<exists>rng'. ia1 C M G sp (?sh i) (?kp i) pubs shares undefined = Ok (msg, rng')) \<and>
      signer_keys_cover sp (?kp i) \<and>
      (\<forall>j. bt_contains_key (blinding_commitments msg) j \<longleftrightarrow> j \<in> peers sp i)"
    if i: "bt_contains_key (signing_commitments sp) i" for i
  proof -
    from signed [OF i] obtain sh where sh: "sign C sp (N i) (?kp i) pubs = Ok sh"
      "share_identifier (?sh i) = i" by auto
    obtain c where c: "package_challenge C sp pubs = Some c" "signer_keys_cover sp (?kp i)"
      using sign_Ok_D [OF sh(1)] by metis
    then obtain msg rng' where "ia1 C M G sp (?sh i) (?kp i) pubs shares undefined = Ok (msg, rng')"
      "ia1_output C M sp (?sh i) (?kp i) pubs shares c msg"
      using ia1_Ok [of "?sh i" "?kp i" sp pubs c M G shares undefined] sh(2) i kp [OF i] by auto
    with c(2) show ?thesis
      using kp(2) [OF i] by (auto simp: ia1_output_def Let_def bt_contains_key_def split: if_splits)
  qed
  then obtain f where f: "\<And>i. bt_contains_key (signing_commitments sp) i \<Longrightarrow>
      (\<exists>rng'. ia1 C M G sp (?sh i) (?kp i) pubs shares undefined = Ok (f i, rng')) \<and>
      signer_keys_cover sp (?kp i) \<and>
      (\<forall>j. bt_contains_key (blinding_commitments (f i)) j \<longleftrightarrow> j \<in> peers sp i)"
    by metis
  define msgs where "msgs = bt_of_list ?ids f"
  have msgs: "bt_get msgs i = Some (f i)" if "bt_contains_key (signing_commitments sp) i" for i
    using that by (simp add: msgs_def)
  have peer: "bt_contains_key (signing_commitments sp) j \<and> i \<in> peers sp j"
    if "j \<in> peers sp i" "bt_contains_key (signing_commitments sp) i" for i j
    using that by (auto simp: peers_def)
  have "\<exists>dec. ia2 (?kp i) sp msgs = Ok dec" if i: "bt_contains_key (signing_commitments sp) i" for i
  proof (rule ia2_returns)
    show "bt_contains_key msgs (key_identifier (?kp i))"
      using msgs [OF i] kp [OF i] by (simp add: bt_contains_key_def)
    show "signer_keys_cover sp (?kp i)" using f [OF i] by blast
    fix j assume "j \<in> peers sp (key_identifier (?kp i))"
    then have j: "j \<in> peers sp i" using kp [OF i] by simp
    note ji = peer [OF j i]
    have "bt_contains_key (blinding_commitments (f i)) j" "bt_contains_key (blinding_commitments (f j)) i"
      using f [OF i] f [of j] j ji by blast+
    then show "commitment_about msgs (key_identifier (?kp i)) j \<noteq> None \<and>
        commitment_about msgs j (key_identifier (?kp i)) \<noteq> None"
      using msgs [OF i] msgs [of j] ji kp [OF i] by (simp add: commitment_about_def bt_contains_key_def)
  qed
  then obtain g where g: "\<And>i. bt_contains_key (signing_commitments sp) i \<Longrightarrow> ia2 (?kp i) sp msgs = Ok (g i)"
    by metis
  define decs where "decs = bt_of_list ?ids g"
  have "responds_honestly C M G sp pubs shares msgs decs (?kp i) (N i)"
    if i: "bt_contains_key (signing_commitments sp) i" for i
  proof -
    obtain sh sh' where "sign C sp (N i) (?kp i) pubs = Ok sh" "bt_get shares i = Some sh'"
      "share_identifier sh' = i" "share_z sh' = share_z sh"
      using signed [OF i] by blast
    moreover obtain rng' where "ia1 C M G sp (?sh i) (?kp i) pubs shares undefined = Ok (f i, rng')"
      using f [OF i] by blast
    ultimately show ?thesis
      unfolding responds_honestly_def Let_def kp(2) [OF i]
      using msgs [OF i] g [OF i] i
      by (intro exI [of _ sh] exI [of _ sh'] exI [of _ "f i"] exI [of _ undefined] exI [of _ rng'] exI [of _ "g i"])
        (simp add: decs_def)
  qed
  moreover have "accusers_in_session sp decs"
    by (auto simp: accusers_in_session_def decs_def bt_contains_key_def [of "bt_of_list _ _"] split: if_splits)
  ultimately show ?thesis by blast
qed

end

section \<open>Witness material\<close>

lemma sample_session:
  obtains keys pubs rng' out msgs decs where
    "generate_with_dealer_from_secret sample_plain sample_rng True 5 3 2 0 = Some (keys, pubs, rng')"
    "dealt_signers sample_package keys"
    "shares_of sample_plain sample_package sample_nonces keys pubs out"
    "accusers_in_session sample_package decs"
    "\<And>i. bt_contains_key (signing_commitments sample_package) i \<Longrightarrow>
      responds_honestly sample_plain sample_transcript sample_rng sample_package pubs out msgs decs
        (the (bt_get keys i)) (the (bt_get sample_nonces i))"
proof -
  obtain keys pubs rng' where
    gen: "generate_with_dealer_from_secret sample_plain sample_rng True 5 3 2 0 = Some (keys, pubs, rng')"
    and dealt: "dealt_signers sample_package keys"
    by (rule sample_keys)
  obtain c where c: "package_challenge sample_plain sample_package pubs = Some c"
    using sample_challenge by blast
  obtain coeffs where keys: "valid_keys sample_plain coeffs keys pubs"
    using dealer_valid [OF sample_plain_contract gen] by blast
  obtain out where out: "shares_of sample_plain sample_package sample_nonces keys pubs out"
    using suite_contract.shares_exist [OF sample_plain_contract keys dealt sample_package_honest c] by blast
  from suite_contract.honest_responses [OF sample_plain_contract keys dealt sample_package_honest c out]
    suite_contract.abort_rounds_return [OF sample_plain_contract keys dealt,
      where N = "\<lambda>i. the (bt_get sample_nonces i)" and shares = out and M = sample_transcript
        and G = sample_rng]
  obtain msgs decs where "accusers_in_session sample_package decs"
    "\<forall>i. bt_contains_key (signing_commitments sample_package) i \<longrightarrow>
      responds_honestly sample_plain sample_transcript sample_rng sample_package pubs out msgs decs
        (the (bt_get keys i)) (the (bt_get sample_nonces i))"
    by blast
  with gen dealt out show thesis using that by blast
qed

section \<open>The properties\<close>

text \<open>
  (C11) The abort rounds of honest signers return: for dealt signers that committed to their
  nonces, whatever the randomness, every \<open>sign\<close>, every \<open>ia1\<close> and every \<open>ia2\<close> gives a value,
  so a session has shares, messages and decisions of all its signers.
\<close>

theorem honest_abort_returns:
  fixes G :: "('r, 's :: field) rng_lib"
  assumes "suite_contract C"
    and "generate_with_dealer_from_secret C G0 ovf sk n_max n_min rng = Some (keys, pubs, rng')"
    and "dealt_signers sp keys" "honest_package C N sp" "package_challenge C sp pubs \<noteq> None"
  shows "\<exists>out msgs decs. shares_of C sp N keys pubs out \<and> accusers_in_session sp decs \<and>
    (\<forall>i. bt_contains_key (signing_commitments sp) i \<longrightarrow>
      responds_honestly C M G sp pubs out msgs decs (the (bt_get keys i)) (the (bt_get N i)))"
proof -
  obtain coeffs where keys: "valid_keys C coeffs keys pubs"
    using dealer_valid [OF assms(1,2)] by blast
  obtain c where c: "package_challenge C sp pubs = Some c" using assms(5) by blast
  obtain out where out: "shares_of C sp N keys pubs out"
    using suite_contract.shares_exist [OF assms(1) keys assms(3,4) c] by blast
  from suite_contract.honest_responses [OF assms(1) keys assms(3,4) c out]
    suite_contract.abort_rounds_return [OF assms(1) keys assms(3),
      where N = "\<lambda>i. the (bt_get N i)" and shares = out and M = M and G = G]
    out show ?thesis by blast
qed

lemma honest_abort_returns_witness:
  "\<exists>keys pubs out msgs decs. shares_of sample_plain sample_package sample_nonces keys pubs out \<and>
    accusers_in_session sample_package decs \<and>
    responds_honestly sample_plain sample_transcript sample_rng sample_package pubs out msgs decs
      (the (bt_get keys 3)) (the (bt_get sample_nonces 3))"
proof -
  obtain keys pubs rng' out msgs decs where
    s: "generate_with_dealer_from_secret sample_plain sample_rng True 5 3 2 0 = Some (keys, pubs, rng')"
    "dealt_signers sample_package keys" by (rule sample_session)
  have "bt_contains_key (signing_commitments sample_package) 3"
    using sample_package_keys by (simp flip: bt_keys_mem)
  with honest_abort_returns [OF sample_plain_contract s sample_package_honest, of sample_transcript sample_rng]
    sample_challenge show ?thesis by (metis option.distinct(1))
qed


text \<open>
  (C10) A session in which every signer answers honestly ends with nobody blamed.
\<close>

theorem honest_session_blames_nobody:
  assumes "suite_contract C"
    and "generate_with_dealer_from_secret C G0 ovf sk n_max n_min rng = Some (keys, pubs, rng')"
    and "dealt_signers sp keys" "0 < bt_len (signing_commitments sp)"
    and "\<And>i. bt_contains_key (signing_commitments sp) i \<Longrightarrow>
      responds_honestly C M G sp pubs shares msgs decs (the (bt_get keys i)) (N i)"
    and "accusers_in_session sp decs"
  shows "decide C M sp pubs shares msgs decs = Some {}"
proof -
  obtain coeffs where keys: "valid_keys C coeffs keys pubs"
    using dealer_valid [OF assms(1,2)] by blast
  have ev: "honest_evidence C M sp pubs shares msgs decs keys i"
    if "bt_contains_key (signing_commitments sp) i" for i
  proof -
    have "bt_contains_key keys i" using assms(3) that by (simp add: dealt_signers_def)
    then obtain kp where "bt_get keys i = Some kp" by (rule bt_contains_keyE)
    then show ?thesis
      using suite_contract.responds_honestly_evidence [OF assms(1) keys] assms(5) [OF that] by simp
  qed
  obtain i where "bt_contains_key (signing_commitments sp) i"
    using assms(4) length_bt_keys [of "signing_commitments sp"] bt_keys_mem
    by (metis length_greater_0_conv list.set_sel(1))
  then have "package_challenge C sp pubs \<noteq> None" using ev by (simp add: honest_evidence_def)
  with suite_contract.all_honest_no_blame [OF assms(1) keys ev assms(6)] show ?thesis by blast
qed

lemma sample_member: "bt_contains_key (signing_commitments sample_package) i \<longleftrightarrow> i = 1 \<or> i = 3"
  using sample_package_keys by (auto simp flip: bt_keys_mem)


lemma honest_session_blames_nobody_witness:
  "\<exists>pubs out msgs decs.
    decide sample_plain sample_transcript sample_package pubs out msgs decs = Some {}"
proof -
  obtain keys pubs rng' out msgs decs where
    s: "generate_with_dealer_from_secret sample_plain sample_rng True 5 3 2 0 = Some (keys, pubs, rng')"
      "dealt_signers sample_package keys"
      "shares_of sample_plain sample_package sample_nonces keys pubs out"
      "accusers_in_session sample_package decs"
    and hon: "\<And>i. bt_contains_key (signing_commitments sample_package) i \<Longrightarrow>
      responds_honestly sample_plain sample_transcript sample_rng sample_package pubs out msgs decs
        (the (bt_get keys i)) (the (bt_get sample_nonces i))"
    by (rule sample_session) (rule that)
  have "0 < bt_len (signing_commitments sample_package)" by (simp add: sample_package_len)
  from honest_session_blames_nobody [OF sample_plain_contract s(1,2) this hon s(4)] show ?thesis by blast
qed





end
