(* ===== verification/Abort_Limits.thy ===== *)
theory Abort_Limits
  imports Abort_Decide
begin

text \<open>
  What the identifiable abort of src/src/ia.rs does not give: a wrong aggregate nonce in a
  share stops the aggregation and nobody is blamed; the decision of a key holder outside the
  session can get an honest signer blamed; and so can two signers together, one of which
  withholds its message of the first abort round.
\<close>

section \<open>A share with a wrong R\<close>

lemma differing_from_head:
  assumes "a \<in> set zs" "b \<in> set zs" "f a \<noteq> f b"
  obtains x xs where "zs = x # xs" "\<exists>s\<in>set xs. f s \<noteq> f x"
proof (cases zs)
  case (Cons x xs)
  have "\<exists>s\<in>set xs. f s \<noteq> f x"
    using assms unfolding Cons by (cases "f a = f x") (auto intro: bexI [of _ b])
  with Cons show ?thesis by (rule that)
qed (use assms(1) in simp)

context suite_contract
begin

lemma shares_of_same_R:
  assumes "valid_keys C coeffs keys pubs" "dealt_signers sp keys" "honest_package C N sp"
    "package_challenge C sp pubs = Some c" and out: "shares_of C sp N keys pubs out"
    and i: "bt_get out i = Some sh"
  shows "share_R sh = fst (normalize_share_r C (package_nonce C sp pubs) 1)"
proof -
  have "bt_contains_key (signing_commitments sp) i"
    using out i by (metis bt_contains_key_def option.distinct(1) shares_of_def)
  from honest_sign_Ok [OF assms(1-4) this] out i show ?thesis by (simp add: shares_of_def)
qed

end

text \<open>
  (C38) The nonce point of a share is not part of what the proof establishes: in an otherwise
  honest session of at least two signers, one of which publishes its correct response under
  a different \<open>R\<close>, aggregation fails with \<open>InconsistentAggregateNonce\<close>, and the abort rounds,
  run by everybody as prescribed, blame nobody.
\<close>

theorem wrong_nonce_point_not_blamed:
  assumes "suite_contract C"
    and "generate_with_dealer_from_secret C G0 ovf sk n_max n_min rng = Some (keys, pubs, rng')"
    and "dealt_signers sp keys" "honest_package C N sp" "package_challenge C sp pubs = Some c"
    and "shares_of C sp N keys pubs out" "bt_get out i = Some sh"
    and "bt_get out j = Some sh'" "i \<noteq> j" "R' \<noteq> share_R sh"
    and "out' = bt_insert i (sh\<lparr> share_R := R' \<rparr>) out"
  shows "aggregate sp out' = Err InconsistentAggregateNonce \<and>
    (\<exists>msgs decs. accusers_in_session sp decs \<and>
      (\<forall>k. bt_contains_key (signing_commitments sp) k \<longrightarrow>
        responds_honestly C M G sp pubs out' msgs decs (the (bt_get keys k)) (the (bt_get N k))) \<and>
      decide C M sp pubs out' msgs decs = Some {})"
proof
  obtain coeffs where keys: "valid_keys C coeffs keys pubs"
    using dealer_valid [OF assms(1,2)] by blast
  have R: "share_R sh' = share_R sh"
    using suite_contract.shares_of_same_R [OF assms(1) keys assms(3-6)] assms(7,8) by simp
  have keys_out: "bt_keys out' = bt_keys (signing_commitments sp)"
    using assms(6,7,11) by (intro bt_keys_cong) (auto simp: shares_of_def bt_contains_key_def)
  have get: "bt_get out' i = Some (sh\<lparr> share_R := R' \<rparr>)" "bt_get out' j = Some sh'"
    using assms(8,9,11) by auto
  then have mem: "sh\<lparr> share_R := R' \<rparr> \<in> set (bt_values out')" "sh' \<in> set (bt_values out')"
    by (force simp: bt_values_conv bt_contains_key_def image_iff intro: bexI [of _ i] bexI [of _ j])+
  have "share_R (sh\<lparr> share_R := R' \<rparr>) \<noteq> share_R sh'" using R assms(10) by simp
  from differing_from_head [OF mem this] obtain x xs where
    "bt_values out' = x # xs" "\<exists>s\<in>set xs. share_R s \<noteq> share_R x" .
  moreover have "bt_len out' = bt_len (signing_commitments sp)"
    using keys_out length_bt_keys [of out'] length_bt_keys [of "signing_commitments sp"] by simp
  ultimately show "aggregate sp out' = Err InconsistentAggregateNonce"
    by (auto simp: aggregate_eq)
  have signed: "\<exists>s s'. sign C sp (the (bt_get N k)) (the (bt_get keys k)) pubs = Ok s \<and>
      bt_get out' k = Some s' \<and> share_identifier s' = k \<and> share_z s' = share_z s"
    if k: "bt_contains_key (signing_commitments sp) k" for k
    using suite_contract.honest_responses [OF assms(1) keys assms(3-6) k] assms(7,11) by auto
  from suite_contract.abort_rounds_return [OF assms(1) keys assms(3),
      where N = "\<lambda>k. the (bt_get N k)" and shares = out' and M = M and G = G, OF signed]
  obtain msgs decs where acc: "accusers_in_session sp decs"
    and hon: "\<And>k. bt_contains_key (signing_commitments sp) k \<Longrightarrow>
      responds_honestly C M G sp pubs out' msgs decs (the (bt_get keys k)) (the (bt_get N k))"
    by blast
  have "honest_evidence C M sp pubs out' msgs decs keys k"
    if k: "bt_contains_key (signing_commitments sp) k" for k
  proof -
    have "bt_contains_key keys k" using assms(3) k by (simp add: dealt_signers_def)
    then obtain kp where "bt_get keys k = Some kp" by (rule bt_contains_keyE)
    then show ?thesis
      using suite_contract.responds_honestly_evidence [OF assms(1) keys] hon [OF k] by simp
  qed
  from suite_contract.all_honest_no_blame [OF assms(1) keys this acc] assms(5) acc hon
  show "\<exists>msgs decs. accusers_in_session sp decs \<and>
      (\<forall>k. bt_contains_key (signing_commitments sp) k \<longrightarrow>
        responds_honestly C M G sp pubs out' msgs decs (the (bt_get keys k)) (the (bt_get N k))) \<and>
      decide C M sp pubs out' msgs decs = Some {}"
    by blast
qed

lemma wrong_nonce_point_not_blamed_witness:
  "\<exists>pubs out' msgs decs. aggregate sample_package out' = Err InconsistentAggregateNonce \<and>
     decide sample_plain sample_transcript sample_package pubs out' msgs decs = Some {}"
proof -
  obtain keys pubs rng' out msgs decs where
    s: "generate_with_dealer_from_secret sample_plain sample_rng True 5 3 2 0 = Some (keys, pubs, rng')"
      "dealt_signers sample_package keys"
      "shares_of sample_plain sample_package sample_nonces keys pubs out"
    by (rule sample_session)
  obtain c where c: "package_challenge sample_plain sample_package pubs = Some c"
    using sample_challenge by blast
  have "bt_contains_key out 1" "bt_contains_key out 3"
    using s(3) by (simp_all add: shares_of_def sample_member)
  then obtain sh sh' where sh: "bt_get out 1 = Some sh" "bt_get out 3 = Some sh'"
    by (auto elim!: bt_contains_keyE)
  have ne: "(1 :: Identifier) \<noteq> 3" "share_R sh + 1 \<noteq> share_R sh" by simp_all
  show ?thesis
    using wrong_nonce_point_not_blamed [OF sample_plain_contract s(1,2) sample_package_honest c s(3) sh ne refl,
        of sample_transcript sample_rng]
    by blast
qed

section \<open>An accuser outside the session\<close>

text \<open>
  (C36) An honest signer can be blamed through a key holder that is not in the session: if a
  dealt signer \<open>a\<close> outside the package publishes a decision that opens its genuine pairwise
  key with the honest signer \<open>i\<close>, then \<open>i\<close> is blamed, because the decision expects a
  blinding commitment of \<open>i\<close> about \<open>a\<close> that the protocol never asks for. The hypothesis
  \<open>accusers_in_session\<close> of the no-framing property is needed.
\<close>

theorem outside_accuser_frames_honest:
  assumes "suite_contract C"
    and "generate_with_dealer_from_secret C G0 ovf sk n_max n_min rng = Some (keys, pubs, rng')"
    and "bt_get keys i = Some kp"
    and "responds_honestly C M G sp pubs shares msgs decs kp n"
    and "pair_key keys a i = Some k" "\<not> bt_contains_key (signing_commitments sp) a"
    and "decs' = bt_insert a \<lparr> ia2_identifier = a, opened_pairwise_keys = bt_insert i k bt_empty \<rparr> decs"
  shows "\<exists>bad. decide C M sp pubs shares msgs decs' = Some bad \<and> i \<in> bad"
proof -
  obtain coeffs where keys: "valid_keys C coeffs keys pubs"
    using dealer_valid [OF assms(1,2)] by blast
  have ev: "honest_evidence C M sp pubs shares msgs decs keys i"
    by (rule suite_contract.responds_honestly_evidence [OF assms(1) keys assms(3,4)])
  have none: "commitment_about msgs i a = None"
    using ev assms(6) by (simp add: honest_evidence_def peers_def)
  have "pair_commitment (partial_verification_keys pubs) a i = Some (hash_pairwise_key_commitment C k)"
    using keys assms(5) by (simp add: valid_keys_def)
  with none have "i \<in> opened_verdict C sp pubs shares msgs a i k"
    by (simp add: opened_verdict_def)
  moreover have "package_challenge C sp pubs \<noteq> None" using ev by (simp add: honest_evidence_def)
  from suite_contract.decide_total [OF assms(1) this]
  obtain bad where bad: "decide C M sp pubs shares msgs decs' = Some bad" by blast
  moreover have "bt_get decs' a = Some \<lparr> ia2_identifier = a, opened_pairwise_keys = bt_insert i k bt_empty \<rparr>"
    by (simp add: assms(7))
  moreover have "bt_get (bt_insert i k bt_empty) i = Some k" by simp
  ultimately have "i \<in> bad"
    by (fastforce simp: decide_eq split: if_splits)
  with bad show ?thesis by blast
qed

lemma outside_accuser_frames_honest_witness:
  "\<exists>pubs out msgs decs bad. decide sample_plain sample_transcript sample_package pubs out msgs decs = Some bad \<and>
     3 \<in> bad"
proof -
  obtain keys pubs rng' out msgs decs where
    s: "generate_with_dealer_from_secret sample_plain sample_rng True 5 3 2 0 = Some (keys, pubs, rng')"
      "dealt_signers sample_package keys"
      "shares_of sample_plain sample_package sample_nonces keys pubs out"
      "accusers_in_session sample_package decs"
    and hon: "\<And>i. bt_contains_key (signing_commitments sample_package) i \<Longrightarrow>
      responds_honestly sample_plain sample_transcript sample_rng sample_package pubs out msgs decs
        (the (bt_get keys i)) (the (bt_get sample_nonces i))"
    by (rule sample_session) (rule that)
  obtain coeffs where keys: "valid_keys sample_plain coeffs keys pubs" "max_signers pubs = 3"
    using dealer_valid [OF sample_plain_contract s(1)] by blast
  then have mem: "bt_contains_key keys 2" "bt_contains_key keys 3" by (simp_all add: valid_keys_def)
  obtain kp where kp: "bt_get keys 3 = Some kp" using mem(2) by (rule bt_contains_keyE)
  have "pair_key keys 2 3 \<noteq> None" using keys(1) mem by (simp add: valid_keys_def)
  then obtain k where k: "pair_key keys 2 3 = Some k" by blast
  have hon3: "responds_honestly sample_plain sample_transcript sample_rng sample_package pubs out msgs decs
      kp (the (bt_get sample_nonces 3))"
    using hon [of 3] kp by (simp add: sample_member)
  have "\<not> bt_contains_key (signing_commitments sample_package) 2" by (simp add: sample_member)
  from outside_accuser_frames_honest [OF sample_plain_contract s(1) kp hon3 k this refl]
  show ?thesis by blast
qed

section \<open>A withheld message\<close>

lemma ia2_step_no_panic: "ia2_step kp msgs own acc j \<noteq> Panic"
  by (auto simp: ia2_step_def Let_def outcome_simps split: if_splits)

lemma ia2_no_panic: "ia2 kp sp msgs \<noteq> Panic"
proof -
  have "try_fold (ia2_step kp msgs own) acc ids \<noteq> Panic" for own acc ids
    by (induction ids arbitrary: acc) (auto simp: outcome_simps ia2_step_no_panic)
  then show ?thesis by (auto simp: ia2_def Let_def outcome_simps)
qed

lemma ia2_needs_messages:
  assumes "m \<in> peers sp (key_identifier kp)" "bt_get msgs m = None"
  obtains e where "ia2 kp sp msgs = Err e"
proof (cases "ia2 kp sp msgs")
  case (Ok dec)
  from ia2_Ok [OF this] assms have False by (auto simp: ia2_output_def Let_def commitment_about_def)
  then show thesis ..
qed (use ia2_no_panic in auto)

text \<open>
  (C37) Two signers together can get an honest one blamed: if a signer withholds its message of
  the first abort round, \<open>ia2\<close> returns an error at every other signer, so an honest signer has
  no decision to publish; if then another signer publishes a commitment about it that differs
  from its own, \<open>decide\<close> holds the unopened pair against the honest signer too, although its
  proof verifies. The hypothesis of the no-framing property that \<open>ia2\<close> returns is needed.
\<close>

theorem withheld_message_frames_honest:
  assumes "suite_contract C"
    and "generate_with_dealer_from_secret C G0 ovf sk n_max n_min rng = Some (keys, pubs, rng')"
    and "bt_get keys i = Some kp" "sign C sp n kp pubs = Ok sh" "bt_get shares i = Some sh"
    and "ia1 C M G sp sh kp pubs shares r = Ok (msg, r')" "bt_get msgs i = Some msg"
    and "m \<in> peers sp i" "bt_get msgs m = None"
    and "j \<in> peers sp i" "commitment_about msgs j i \<notin> {None, commitment_about msgs i j}"
    and "bt_get decs i = None"
  shows "verify_wellformed_proof C M sp sh msg pubs = Some True \<and>
    (\<exists>e. ia2 kp sp msgs = Err e) \<and>
    (\<exists>bad. decide C M sp pubs shares msgs decs = Some bad \<and> i \<in> bad)"
proof (intro conjI)
  obtain coeffs where keys: "valid_keys C coeffs keys pubs"
    using dealer_valid [OF assms(1,2)] by blast
  have i: "key_identifier kp = i" using keys assms(3) by (simp add: valid_keys_def)
  obtain sc c where sc: "bt_get (signing_commitments sp) i = Some sc" "nonce_matches C n sc"
    and c: "package_challenge C sp pubs = Some c" and cover: "signer_keys_cover sp kp"
    and sh: "share_identifier sh = i" "share_z sh = suite_contract.share_response C sp pubs n kp c"
    using suite_contract.sign_Ok_D [OF assms(1,4)] i by metis
  have mem: "bt_contains_key (signing_commitments sp) i" using sc(1) by (simp add: bt_contains_key_def)
  have "ia1_output C M sp sh kp pubs shares c msg"
    using suite_contract.ia1_Ok [OF assms(1) _ _ cover c, of sh M G shares r] sh(1) i mem assms(6) by auto
  from suite_contract.ia1_verify [OF assms(1) keys assms(3) sc c this sh(1), of 0] sh(2)
  show "verify_wellformed_proof C M sp sh msg pubs = Some True" by simp
  show "\<exists>e. ia2 kp sp msgs = Err e"
    using ia2_needs_messages [of m sp kp msgs] assms(8,9) i by metis
  obtain bad where bad: "decide C M sp pubs shares msgs decs = Some bad"
    using suite_contract.decide_total [OF assms(1), of sp pubs] c by blast
  have "i \<in> bad"
    by (rule unopened_blamed [OF bad mem, of j])
      (use assms(7,10-12) in \<open>auto simp: peers_def has_opened_def bt_contains_key_def
        commitment_about_def bind_eq_Some_conv\<close>)
  with bad show "\<exists>bad. decide C M sp pubs shares msgs decs = Some bad \<and> i \<in> bad" by blast
qed

definition sample_trio :: "gf SigningPackage" where
  "sample_trio = \<lparr> message = replicate 32 7,
     signing_commitments = bt_of_list [1, 2, 3] (\<lambda>i. \<lparr> comm_D = of_nat (unat i + 4), comm_E = 9 \<rparr>),
     pkg_partial_verification_keys = bt_empty \<rparr>"

definition sample_trio_nonces :: "(Identifier, gf SigningNonces) btree_map" where
  "sample_trio_nonces = bt_of_list [1, 2, 3] (\<lambda>i. \<lparr> nonce_d = of_nat (unat i + 4), nonce_e = 9 \<rparr>)"

lemma sample_trio_member: "bt_contains_key (signing_commitments sample_trio) i \<longleftrightarrow> i = 1 \<or> i = 2 \<or> i = 3"
  by (auto simp: sample_trio_def bt_contains_key_def split: if_splits)

lemma sample_trio_honest: "honest_package sample_plain sample_trio_nonces sample_trio"
  by (simp add: honest_package_def sample_trio_nonces_def sample_trio_def secp256k1_plain_def
      default_mul_generator_def sample_k256_def)

lemma withheld_message_frames_honest_witness:
  "\<exists>kp pubs shares msgs bad. key_identifier kp = 1 \<and>
     (\<exists>e. ia2 kp sample_trio msgs = Err e) \<and>
     decide sample_plain sample_transcript sample_trio pubs shares msgs bt_empty = Some bad \<and> 1 \<in> bad"
proof -
  obtain keys pubs rng' where
    gen: "generate_with_dealer_from_secret sample_plain sample_rng True 5 3 2 0 = Some (keys, pubs, rng')"
    by (rule sample_keys)
  obtain coeffs where keys: "valid_keys sample_plain coeffs keys pubs" "max_signers pubs = 3"
    using dealer_valid [OF sample_plain_contract gen] by blast
  have mem: "bt_contains_key keys 1" "bt_contains_key keys 2" "bt_contains_key keys 3"
    using keys by (simp_all add: valid_keys_def)
  then have dealt: "dealt_signers sample_trio keys" by (auto simp: dealt_signers_def sample_trio_member)
  obtain kp where kp: "bt_get keys 1 = Some kp" "key_identifier kp = 1"
    using keys(1) mem(1) by (rule valid_keys_get)
  obtain c where c: "package_challenge sample_plain sample_trio pubs = Some c"
    using sample_challenge by blast
  obtain out where out: "shares_of sample_plain sample_trio sample_trio_nonces keys pubs out"
    using suite_contract.shares_exist [OF sample_plain_contract keys(1) dealt sample_trio_honest c] by blast
  obtain sh where sh: "bt_get out 1 = Some sh"
      "sign sample_plain sample_trio (the (bt_get sample_trio_nonces 1)) kp pubs = Ok sh"
    using suite_contract.honest_sign_Ok [OF sample_plain_contract keys(1) dealt sample_trio_honest c, of 1] out
    by (force simp: shares_of_def sample_trio_member kp elim: bt_contains_keyE)
  obtain c' where c': "package_challenge sample_plain sample_trio pubs = Some c'" "signer_keys_cover sample_trio kp"
    "share_identifier sh = 1"
    using suite_contract.sign_Ok_D [OF sample_plain_contract sh(2)] kp(2) by metis
  obtain msg r' where msg: "ia1 sample_plain sample_transcript sample_rng sample_trio sh kp pubs out 0 = Ok (msg, r')"
    using suite_contract.ia1_Ok [OF sample_plain_contract _ _ c'(2,1)] c'(3) kp(2) sample_trio_member by metis
  define lie where "lie = msg\<lparr> blinding_commitments :=
    bt_insert 1 (the (bt_get (blinding_commitments msg) 3) + 1) bt_empty \<rparr>"
  define msgs where "msgs = bt_insert (1 :: Identifier) msg (bt_insert 3 lie bt_empty)"
  have m: "(2 :: Identifier) \<in> peers sample_trio 1" "(3 :: Identifier) \<in> peers sample_trio 1"
    by (simp_all add: peers_def sample_trio_member)
  have about: "commitment_about msgs 3 1 \<notin> {None, commitment_about msgs 1 3}"
    by (cases "bt_get (blinding_commitments msg) 3") (auto simp: commitment_about_def msgs_def lie_def)
  have get: "bt_get msgs 1 = Some msg" "bt_get msgs 2 = None" "bt_get bt_empty (1 :: Identifier) = None"
    by (simp_all add: msgs_def)
  from withheld_message_frames_honest [OF sample_plain_contract gen kp(1) sh(2,1) msg get(1) m(1) get(2) m(2) about get(3)]
  show ?thesis using kp(2) by blast
qed

end
