(* ===== verification/Ed25519_Bytes.thy ===== *)
theory Ed25519_Bytes
  imports Signing
begin

text \<open>
  The byte-level functions of src/src/ciphersuite/ed25519.rs, and the second generator that
  its try-and-increment loop finds. On the bytes of a signature of the crate,
  \<open>ed25519_verify_bytes\<close> decides exactly as \<open>verify\<close> does.
\<close>

section \<open>The functions\<close>

definition verifying_key_bytes :: "('s, 'p, 'd) dalek_lib \<Rightarrow> 'p PublicKeyPackage \<Rightarrow> bytes" where
  "verifying_key_bytes L pubkeys = compress L (verifying_key pubkeys)"

definition ed25519_signature_to_bytes ::
  "('s, 'p, 'd) dalek_lib \<Rightarrow> ('s, 'p) Signature \<Rightarrow> bytes" where
  "ed25519_signature_to_bytes L sig =
     (let r_enc = compress L (sig_R sig);
          s_enc = scalar_to_bytes L (sig_z sig)
      in r_enc @ s_enc)"

definition ed25519_verify_bytes ::
  "('s, 'p :: plus, 'd) dalek_lib \<Rightarrow> bytes \<Rightarrow> bytes \<Rightarrow> bytes \<Rightarrow> bool" where
  "ed25519_verify_bytes L sig msg vk_bytes =
     (let r_enc = take 32 sig;
          s_enc = drop 32 sig
      in case decompress L vk_bytes of None \<Rightarrow> False | Some A \<Rightarrow>
        (case decompress L r_enc of None \<Rightarrow> False | Some R \<Rightarrow>
        (case scalar_from_canonical L s_enc of None \<Rightarrow> False | Some s \<Rightarrow>
          let k = rfc8032_challenge L r_enc vk_bytes msg
          in point_mul L (generator L) s = R + point_mul L A k)))"

section \<open>The two verifiers\<close>

context dalek_contract
begin

lemma length_signature_bytes: "length (ed25519_signature_to_bytes L sg) = 64"
  by (simp add: ed25519_signature_to_bytes_def compress_length scalar_length)

lemma verify_bytes_eq:
  "verify (ed25519 L) sg msg pubs =
     Some (ed25519_verify_bytes L (ed25519_signature_to_bytes L sg) msg (verifying_key_bytes L pubs))"
  by (simp add: verify_def ed25519_def default_accept_r_def ed25519_verify_bytes_def
      ed25519_signature_to_bytes_def verifying_key_bytes_def compress_length compress_parse
      scalar_parse mul_base_eq Let_def)

end

section \<open>The second generator\<close>

lemma pedersen_search_None:
  assumes "\<And>k. pedersen_try L k = None"
  shows "pedersen_search L ctr = None"
proof (rule ccontr)
  assume "pedersen_search L ctr \<noteq> None"
  then show False using pedersen_search_found assms by fastforce
qed

lemma pedersen_search_first:
  assumes "pedersen_try L k = Some hp" "\<And>j. j < k \<Longrightarrow> pedersen_try L j = None"
  shows "pedersen_search L 0 = Some hp"
proof -
  have "pedersen_try L (0 + of_nat m) = None" if "m < unat k" for m
  proof -
    have "(of_nat m :: 32 word) < k"
      using that unsigned_less [of k, where 'a = nat] by (simp add: word_less_nat_alt unat_of_nat)
    then show ?thesis using assms(2) by simp
  qed
  then have "pedersen_search L 0 = pedersen_search L (0 + of_nat (unat k))"
    by (rule pedersen_search_skip)
  then show ?thesis using pedersen_search_hit [OF assms(1)] by simp
qed

section \<open>A sample session\<close>

lemma sample_ed25519_try: "pedersen_try sample_dalek 0 \<noteq> None"
  by code_simp

lemma sample_ed25519_pedersen: "pedersen_generator sample_ed25519 \<noteq> None"
proof -
  obtain hp where "pedersen_try sample_dalek 0 = Some hp" using sample_ed25519_try by blast
  then have "pedersen_search sample_dalek 0 = Some hp" by (rule pedersen_search_hit)
  then show ?thesis by (simp add: ed25519_def ed25519_pedersen_generator_def)
qed

definition sample_ed_package :: "ed_point SigningPackage" where
  "sample_ed_package = \<lparr> message = replicate 32 7,
     signing_commitments = bt_of_list [1, 3]
       (\<lambda>i. \<lparr> comm_D = EdPoint (of_nat (unat i + 4)) 0, comm_E = EdPoint 9 0 \<rparr>),
     pkg_partial_verification_keys = bt_empty \<rparr>"

lemma sample_ed_package_len: "bt_len (signing_commitments sample_ed_package) = 2"
  using length_bt_keys [of "signing_commitments sample_ed_package"]
  by (simp add: sample_ed_package_def bt_keys_of_list)

lemma sample_ed25519_honest: "honest_package sample_ed25519 sample_nonces sample_ed_package"
  by (simp add: honest_package_def sample_nonces_def sample_ed_package_def ed25519_def
      sample_dalek_def ed_mul_def)

lemma ed25519_challenge:
  obtains c where "package_challenge (ed25519 L) sp pubs = Some c"
  by (simp add: package_challenge_def ed25519_def)

section \<open>The properties\<close>

text \<open>
  (C19) The two verifiers of the Ed25519 ciphersuite agree: \<open>verify\<close> never panics and decides
  a signature as the standalone RFC 8032 check does on its 64 bytes and the 32-byte key.
\<close>

theorem ed25519_verifiers_agree:
  assumes "dalek_contract L"
  shows "verify (ed25519 L) sg msg pubs =
      Some (ed25519_verify_bytes L (ed25519_signature_to_bytes L sg) msg (verifying_key_bytes L pubs)) \<and>
    length (ed25519_signature_to_bytes L sg) = 64"
  using dalek_contract.verify_bytes_eq [OF assms] dalek_contract.length_signature_bytes [OF assms]
  by blast

lemma ed25519_verifiers_agree_witness:
  "\<exists>pubs. verifying_key pubs = EdPoint 4 0 \<and>
     verify sample_ed25519 \<lparr> sig_R = EdPoint 3 1, sig_z = 5 \<rparr> [9] pubs = Some
       (ed25519_verify_bytes sample_dalek
         (ed25519_signature_to_bytes sample_dalek \<lparr> sig_R = EdPoint 3 1, sig_z = 5 \<rparr>) [9]
         (verifying_key_bytes sample_dalek pubs))"
  using ed25519_verifiers_agree [OF sample_dalek.dalek_contract_axioms,
      of "\<lparr> sig_R = EdPoint 3 1, sig_z = 5 \<rparr>" "[9]"
        "\<lparr> verifying_key = EdPoint 4 0, max_signers = 3, min_signers = 2, pedersen_h = EdPoint 7 0,
           partial_verification_keys = bt_empty \<rparr>"]
  by (intro exI conjI) (auto intro: exI)

text \<open>
  (C16) The signatures are Ed25519 signatures: the aggregate of an honest session of at least
  \<open>min_signers\<close> dealt signers of the Ed25519 suite has a 64-byte form that verifies on its
  own under the 32-byte key of the dealer.
\<close>

theorem ed25519_honest_bytes_verify:
  assumes "dalek_contract L"
    and "generate_with_dealer_from_secret (ed25519 L) G ovf sk n_max n_min rng = Some (shares, pubs, rng')"
    and "dealt_signers sp shares" "honest_package (ed25519 L) N sp"
    and "unat n_min \<le> bt_len (signing_commitments sp)" "0 < bt_len (signing_commitments sp)"
    and "shares_of (ed25519 L) sp N shares pubs out"
  shows "\<exists>sg. aggregate sp out = Ok sg \<and>
    ed25519_verify_bytes L (ed25519_signature_to_bytes L sg) (message sp) (verifying_key_bytes L pubs)"
proof -
  note C = dalek_contract.ed25519_suite [OF assms(1)]
  obtain coeffs where keys: "valid_keys (ed25519 L) coeffs shares pubs" "min_signers pubs = n_min"
    using dealer_valid [OF C assms(2)] by blast
  obtain c where "package_challenge (ed25519 L) sp pubs = Some c" by (rule ed25519_challenge)
  from suite_contract.honest_round [OF C keys(1) assms(3,4) _ assms(6) this assms(7)] assms(5) keys(2)
  show ?thesis by (auto simp: dalek_contract.verify_bytes_eq [OF assms(1)])
qed

lemma ed25519_honest_bytes_verify_witness:
  "\<exists>(sg :: (gf, ed_point) Signature) pubs. ed25519_verify_bytes sample_dalek
     (ed25519_signature_to_bytes sample_dalek sg) (replicate 32 7) (verifying_key_bytes sample_dalek pubs)"
proof -
  obtain shares pubs rng' where
    gen: "generate_with_dealer_from_secret sample_ed25519 sample_rng True 5 3 2 0 = Some (shares, pubs, rng')"
    using dealer_returns [of 2 3 sample_ed25519 sample_rng True 5 0] sample_ed25519_pedersen by auto
  obtain coeffs where keys: "valid_keys sample_ed25519 coeffs shares pubs" "max_signers pubs = 3"
    using dealer_valid [OF sample_ed25519_contract gen] by blast
  then have "bt_contains_key shares 1" "bt_contains_key shares 3" by (simp_all add: valid_keys_def)
  then have dealt: "dealt_signers sample_ed_package shares"
    by (auto simp: dealt_signers_def sample_ed_package_def bt_contains_key_def split: if_splits)
  obtain c where "package_challenge sample_ed25519 sample_ed_package pubs = Some c"
    by (rule ed25519_challenge)
  from suite_contract.shares_exist [OF sample_ed25519_contract keys(1) dealt sample_ed25519_honest this]
  obtain out where "shares_of sample_ed25519 sample_ed_package sample_nonces shares pubs out" by blast
  moreover have "unat (2 :: Identifier) \<le> bt_len (signing_commitments sample_ed_package)"
    "0 < bt_len (signing_commitments sample_ed_package)" by (simp_all add: sample_ed_package_len)
  moreover have "message sample_ed_package = replicate 32 7" by (simp add: sample_ed_package_def)
  ultimately show ?thesis
    using ed25519_honest_bytes_verify [OF sample_dalek.dalek_contract_axioms gen dealt sample_ed25519_honest]
    by metis
qed

text \<open>
  (C24) The try-and-increment loop of the second generator ends with the point of the first
  counter whose hash decompresses to a point that is not of small order, a non-identity
  point of the prime-order subgroup; it fails to return exactly when no 32-bit counter has
  one.
\<close>

theorem ed25519_pedersen_first_hit:
  assumes "dalek_contract L"
  shows "(ed25519_pedersen_generator L = None \<longleftrightarrow> (\<forall>k. pedersen_try L k = None)) \<and>
    (ed25519_pedersen_generator L = Some hp \<longleftrightarrow>
       (\<exists>k. pedersen_try L k = Some hp \<and> (\<forall>j < k. pedersen_try L j = None))) \<and>
    (ed25519_pedersen_generator L = Some hp \<longrightarrow>
       hp \<noteq> 0 \<and> (\<exists>x. hp = point_mul L (generator L) x))"
proof (cases "\<exists>k. pedersen_try L k \<noteq> None")
  case True
  define k where "k = (LEAST k. pedersen_try L k \<noteq> None)"
  have k: "pedersen_try L k \<noteq> None" using True unfolding k_def by (rule LeastI_ex)
  have before: "pedersen_try L j = None" if "j < k" for j
    using not_less_Least [OF that [unfolded k_def]] by simp
  obtain hp' where hp': "pedersen_try L k = Some hp'" using k by blast
  then have gen: "ed25519_pedersen_generator L = Some hp'"
    using pedersen_search_first [OF _ before] by (simp add: ed25519_pedersen_generator_def)
  have "k' = k" if "pedersen_try L k' = Some x" "\<forall>j < k'. pedersen_try L j = None" for k' x
    using that before hp' by (metis linorder_neqE option.distinct(1))
  then have "(\<exists>k'. pedersen_try L k' = Some hp \<and> (\<forall>j < k'. pedersen_try L j = None)) \<longleftrightarrow> hp = hp'"
    using hp' before by (metis option.inject)
  moreover have "hp' \<noteq> 0 \<and> (\<exists>x. hp' = point_mul L (generator L) x)"
    using pedersen_try_image [OF hp'] dalek_contract.cofactor_clears [OF assms] by metis
  ultimately show ?thesis using gen k by auto
next
  case False
  then have "ed25519_pedersen_generator L = None"
    using pedersen_search_None [of L 0] by (simp add: ed25519_pedersen_generator_def)
  with False show ?thesis by simp
qed

lemma ed25519_pedersen_first_hit_witness:
  "ed25519_pedersen_generator sample_dalek = pedersen_try sample_dalek 0"
proof -
  obtain hp where hp: "pedersen_try sample_dalek 0 = Some hp" using sample_ed25519_try by blast
  moreover have "\<not> j < 0" for j :: "32 word" by simp
  ultimately show ?thesis
    using ed25519_pedersen_first_hit [OF sample_dalek.dalek_contract_axioms, of hp] by metis
qed

end
