(* ===== verification/Abort_Torsion.thy ===== *)
theory Abort_Torsion
  imports Abort_Decide Ed25519_Bytes
begin

text \<open>
  edwards25519 has points outside the prime-order subgroup, and neither src/src/wire.rs nor
  src/src/sign.rs refuses them: what one commitment with such a component does to a session, and
  when the proof of src/src/ia.rs still accepts the signer that published it.
\<close>

section \<open>A commitment with a foreign component\<close>

definition shift_D :: "'p :: plus \<Rightarrow> 'p SigningCommitments \<Rightarrow> 'p SigningCommitments" where
  "shift_D T sc = sc\<lparr> comm_D := comm_D sc + T \<rparr>"

lemma sum_commitments_replace:
  fixes T :: "'p :: ab_group_add"
  assumes "bt_get cs i = Some sc"
  shows "sum_commitments (bt_insert i (shift_D T sc) cs) =
    (fst (sum_commitments cs) + T, snd (sum_commitments cs))"
proof -
  have i: "bt_contains_key cs i" "i \<in> set (bt_keys cs)"
    using assms by (simp_all add: bt_contains_key_def)
  have "sum_list (map comm_D (bt_values (bt_insert i (shift_D T sc) cs))) =
      sum_list (map (\<lambda>k. if k = i then comm_D sc + T else comm_D (the (bt_get cs k))) (bt_keys cs))"
    unfolding bt_values_insert_present [OF i(1)]
    by (simp add: comp_def if_distrib shift_D_def cong: if_cong)
  also have "\<dots> = sum_list (map comm_D (bt_values cs)) + T"
    using sum_list_replace [OF distinct_bt_keys i(2), of "comm_D sc + T" "\<lambda>k. comm_D (the (bt_get cs k))"] assms
    by (simp add: bt_values_conv comp_def)
  finally have D: "sum_list (map comm_D (bt_values (bt_insert i (shift_D T sc) cs))) =
      sum_list (map comm_D (bt_values cs)) + T" .
  have "map comm_E (bt_values (bt_insert i (shift_D T sc) cs)) = map comm_E (bt_values cs)"
    unfolding bt_values_insert_present [OF i(1)]
    using assms by (auto simp: bt_values_conv shift_D_def)
  then show ?thesis using D by (simp add: sum_commitments_eq)
qed

context suite_contract
begin

lemma point_mul_diff: "point_mul C (P - Q) a = point_mul C P a - point_mul C Q a"
  using mul_points [of "P - Q" Q a] by (simp add: algebra_simps)

lemma in_subgroup_add: "in_subgroup C P \<Longrightarrow> in_subgroup C Q \<Longrightarrow> in_subgroup C (P + Q)"
  by (auto simp: in_subgroup_def gen_add)

lemma in_subgroup_diff: "in_subgroup C P \<Longrightarrow> in_subgroup C Q \<Longrightarrow> in_subgroup C (P - Q)"
  by (auto simp: in_subgroup_def gen_diff)

lemma in_subgroup_gen: "in_subgroup C (point_mul C (generator C) a)"
  by (auto simp: in_subgroup_def)

lemma in_subgroup_mul: "in_subgroup C P \<Longrightarrow> in_subgroup C (point_mul C P a)"
  by (auto simp: in_subgroup_def gen_mul)

text \<open>The nonce of the package leaves the subgroup with the commitment.\<close>

lemma package_nonce_shifted:
  assumes "honest_package C N sp" "bt_get (signing_commitments sp) i = Some sc"
    and "sp' = sp\<lparr> signing_commitments := bt_insert i (shift_D T sc) (signing_commitments sp) \<rparr>"
    and "\<not> in_subgroup C T"
  shows "\<not> in_subgroup C (package_nonce C sp' pubs)"
proof -
  define b where "b = package_binding C sp' pubs"
  obtain D E where DE: "sum_commitments (signing_commitments sp) = (D, E)"
    by (cases "sum_commitments (signing_commitments sp)")
  have sc: "in_subgroup C (comm_D (the (bt_get (signing_commitments sp) k)))"
    "in_subgroup C (comm_E (the (bt_get (signing_commitments sp) k)))"
    if "k \<in> set (bt_keys (signing_commitments sp))" for k
    using that assms(1) by (auto simp: honest_package_def bt_contains_key_def mul_generator_eq in_subgroup_gen)
  have sum: "in_subgroup C (sum_list (map f ks))" if "\<And>k. k \<in> set ks \<Longrightarrow> in_subgroup C (f k)"
    for f :: "Identifier \<Rightarrow> 'p" and ks
    using that by (induction ks) (auto simp: in_subgroup_add intro: in_subgroup_gen [of 0, unfolded gen_zero])
  have "in_subgroup C D" "in_subgroup C E"
    using DE sum [of "bt_keys (signing_commitments sp)"] sc
    by (auto simp: sum_commitments_eq bt_values_conv comp_def)
  then have sub: "in_subgroup C (D + point_mul C E b)" by (simp add: in_subgroup_add in_subgroup_mul)
  have "package_nonce C sp' pubs = D + T + point_mul C E b"
    using sum_commitments_replace [OF assms(2), of T] DE assms(3)
    by (simp add: package_nonce_def b_def)
  then have "T = package_nonce C sp' pubs - (D + point_mul C E b)" by simp
  with sub assms(4) in_subgroup_diff show ?thesis by metis
qed

text \<open>No response verifies for a nonce outside the subgroup.\<close>

lemma verify_in_subgroup:
  assumes "verify C sg msg pubs = Some True" "in_subgroup C (verifying_key pubs)"
  shows "in_subgroup C (sig_R sg)"
proof -
  obtain c where "point_mul C (generator C) (sig_z sg) = sig_R sg + point_mul C (verifying_key pubs) c"
    using assms(1) by (auto simp: verify_def bind_eq_Some_conv mul_generator_eq split: if_splits)
  then have "sig_R sg = point_mul C (generator C) (sig_z sg) - point_mul C (verifying_key pubs) c"
    by simp
  then show ?thesis using assms(2) in_subgroup_gen in_subgroup_mul in_subgroup_diff by metis
qed

section \<open>The proof of the signer\<close>

lemma share_point_shifted:
  "share_point C sp pubs (shift_D T sc) z =
   share_point C sp pubs sc z - point_mul C T (share_sign C (package_nonce C sp pubs))"
  by (simp add: share_point_def shift_D_def mul_points algebra_simps)

lemma answers_foreign:
  assumes "answers C sp h i k A V msg ch"
  shows "answers C sp h i k (A - Q) V msg ch \<longleftrightarrow> point_mul C Q (- ch) = 0"
  using assms by (auto simp: answers_def Let_def point_mul_diff add_diff_eq)

lemma ia1_verify_shifted:
  assumes keys: "valid_keys C coeffs shares pubs" "bt_get shares i = Some kp"
    and sc: "bt_get (signing_commitments sp) i = Some (shift_D T sc)" "nonce_matches C n sc"
    and c: "package_challenge C sp pubs = Some c"
    and out: "ia1_output C M sp sh kp pubs all c msg"
    and sh: "share_identifier sh = i" "share_z sh = share_response sp pubs n kp c"
  shows "verify_wellformed_proof C M sp sh msg pubs = Some
    (point_mul C (point_mul C T (share_sign C (package_nonce C sp pubs)))
       (- message_challenge C M sp sh pubs msg c) = 0)"
proof -
  have i: "key_identifier kp = i" and h: "pedersen_generator C = Some (pedersen_h pubs)"
    using keys by (simp_all add: valid_keys_def)
  obtain vki where vki: "bt_get (partial_verification_keys pubs) i = Some vki"
    and V: "signing_share_commitment vki =
      pedersen_commit C (signing_share kp) (signing_share_blinding kp) (pedersen_h pubs)"
    using keys by (rule valid_keys_commitment)
  have "ia1_identifier msg = share_identifier sh" using out sh i by (simp add: ia1_output_def Let_def)
  moreover have "answers C sp (pedersen_h pubs) i
      (lag (set (bt_keys (signing_commitments sp))) scalar_from i * c)
      (share_point C sp pubs sc (share_response sp pubs n kp c)) (signing_share_commitment vki) msg
      (message_challenge C M sp sh pubs msg c)"
    using ia1_output_answers_iff [OF out h sc(2) V, of 0] i by simp
  ultimately show ?thesis
    using verify_wellformed_eq [of sp sh "shift_D T sc" pubs vki c M msg] sc(1) vki c sh
    by (simp add: share_point_shifted answers_foreign)
qed

end

section \<open>The property\<close>

lemma ed25519_share_sign: "share_sign (ed25519 L) R = 1"
  by (simp add: share_sign_def ed25519_def default_normalize_share_r_def)

text \<open>
  (C39) One foreign commitment spoils an Ed25519 session, and its author can escape: if a signer
  publishes its commitment with a component \<open>T\<close> outside the prime-order subgroup, every other
  signer still signs, for an \<open>R\<close> outside the subgroup, and no response verifies for that \<open>R\<close>;
  yet there is a response with which the proof of its author is accepted exactly when the
  proof's challenge multiplies \<open>T\<close> to the identity, which for a component of small order is a
  matter of trying again.
\<close>

theorem ed25519_torsion_commitment:
  assumes "dalek_contract L"
    and "generate_with_dealer_from_secret (ed25519 L) G0 ovf sk n_max n_min rng = Some (shares, pubs, rng')"
    and "dealt_signers sp shares" "honest_package (ed25519 L) N sp"
    and "bt_get (signing_commitments sp) i = Some sc" "\<not> in_subgroup (ed25519 L) T"
    and "sp' = sp\<lparr> signing_commitments := bt_insert i (shift_D T sc) (signing_commitments sp) \<rparr>"
    and "package_challenge (ed25519 L) sp' pubs = Some c"
  shows "(\<forall>k. bt_contains_key (signing_commitments sp) k \<longrightarrow> k \<noteq> i \<longrightarrow>
      (\<exists>sh. sign (ed25519 L) sp' (the (bt_get N k)) (the (bt_get shares k)) pubs = Ok sh \<and>
         (\<forall>sg msg. sig_R sg = share_R sh \<longrightarrow> verify (ed25519 L) sg msg pubs \<noteq> Some True))) \<and>
    (\<exists>z. \<forall>M G R all r msg r'.
      ia1 (ed25519 L) M G sp' \<lparr> share_identifier = i, share_R = R, share_z = z \<rparr>
        (the (bt_get shares i)) pubs all r = Ok (msg, r') \<longrightarrow>
      verify_wellformed_proof (ed25519 L) M sp' \<lparr> share_identifier = i, share_R = R, share_z = z \<rparr> msg pubs =
        Some (point_mul (ed25519 L) (point_mul (ed25519 L) T 1)
          (- message_challenge (ed25519 L) M sp' \<lparr> share_identifier = i, share_R = R, share_z = z \<rparr>
               pubs msg c) = 0))"
proof (intro conjI allI impI)
  let ?C = "ed25519 L"
  note C = dalek_contract.ed25519_suite [OF assms(1)]
  obtain coeffs where keys: "valid_keys ?C coeffs shares pubs"
    using dealer_valid [OF C assms(2)] by blast
  note sec = valid_keys_secret [OF keys]
  have vk: "in_subgroup ?C (verifying_key pubs)"
    using keys by (auto simp: valid_keys_def in_subgroup_def)
  have mem: "bt_contains_key (signing_commitments sp') k = bt_contains_key (signing_commitments sp) k" for k
    using assms(5) by (auto simp: assms(7) bt_contains_key_def)
  then have dealt': "dealt_signers sp' shares" using assms(3) by (simp add: dealt_signers_def)
  have R: "\<not> in_subgroup ?C (package_nonce ?C sp' pubs)"
    by (rule suite_contract.package_nonce_shifted [OF C assms(4,5,7,6)])
  have norm: "fst (normalize_share_r ?C P 1) = P" for P
    by (simp add: ed25519_def default_normalize_share_r_def)
  {
    fix k assume k: "bt_contains_key (signing_commitments sp) k" "k \<noteq> i"
    obtain kp where kp: "bt_get shares k = Some kp" "key_identifier kp = k"
      using sec assms(3) k(1) by (auto simp: dealt_signers_def elim: secret_shares_get)
    obtain n where n: "bt_get N k = Some n" "bt_get (signing_commitments sp) k = Some
        \<lparr> comm_D = mul_generator ?C (nonce_d n), comm_E = mul_generator ?C (nonce_e n) \<rparr>"
      using assms(4) k(1) by (auto simp: honest_package_def bt_contains_key_def)
    have "bt_get (signing_commitments sp') (key_identifier kp) = Some
        \<lparr> comm_D = mul_generator ?C (nonce_d n), comm_E = mul_generator ?C (nonce_e n) \<rparr>"
      using n(2) k(2) kp(2) by (simp add: assms(7))
    moreover have "nonce_matches ?C n
        \<lparr> comm_D = mul_generator ?C (nonce_d n), comm_E = mul_generator ?C (nonce_e n) \<rparr>"
      by (simp add: nonce_matches_def)
    moreover have "bt_contains_key (pairwise_keys kp) j"
      if "bt_contains_key (signing_commitments sp') j" "j \<noteq> key_identifier kp" for j
      using suite_contract.pairwise_keys_valid [OF C sec dealt' kp(1)] that kp(2) by simp
    ultimately have "sign ?C sp' n kp pubs = Ok \<lparr> share_identifier = key_identifier kp,
        share_R = fst (normalize_share_r ?C (package_nonce ?C sp' pubs) 1),
        share_z = suite_contract.share_response ?C sp' pubs n kp c \<rparr>"
      using suite_contract.sign_Ok [OF C] assms(8) by blast
    moreover have "verify ?C sg msg pubs \<noteq> Some True" if "sig_R sg = package_nonce ?C sp' pubs" for sg msg
      using suite_contract.verify_in_subgroup [OF C _ vk, of sg msg] that R by auto
    ultimately show "\<exists>sh. sign ?C sp' (the (bt_get N k)) (the (bt_get shares k)) pubs = Ok sh \<and>
        (\<forall>sg msg. sig_R sg = share_R sh \<longrightarrow> verify ?C sg msg pubs \<noteq> Some True)"
      using n(1) kp(1) by (auto simp: norm)
  }
  have i: "bt_contains_key (signing_commitments sp) i" using assms(5) by (simp add: bt_contains_key_def)
  obtain kp where kp: "bt_get shares i = Some kp" "key_identifier kp = i"
    using sec assms(3) i by (auto simp: dealt_signers_def elim: secret_shares_get)
  obtain n where n: "nonce_matches ?C n sc"
    using assms(4,5) by (auto simp: honest_package_def nonce_matches_def)
  have cover: "signer_keys_cover sp' kp"
    using suite_contract.pairwise_keys_valid [OF C sec dealt' kp(1)] kp(2)
    by (auto simp: signer_keys_cover_def peers_def)
  have main: "verify_wellformed_proof ?C M sp' \<lparr> share_identifier = i, share_R = R, share_z = zi \<rparr> msg pubs = Some
      (point_mul ?C (point_mul ?C T 1)
        (- message_challenge ?C M sp' \<lparr> share_identifier = i, share_R = R, share_z = zi \<rparr> pubs msg c) = 0)"
    if msg: "ia1 ?C M G sp' \<lparr> share_identifier = i, share_R = R, share_z = zi \<rparr> kp pubs all r = Ok (msg, r')"
      and zi: "zi = suite_contract.share_response ?C sp' pubs n kp c"
    for M G R all r msg r' zi
  proof -
    let ?sh = "\<lparr> share_identifier = i, share_R = R, share_z = zi \<rparr>"
    have "share_identifier ?sh = key_identifier kp" "bt_contains_key (signing_commitments sp') (key_identifier kp)"
      using kp(2) i mem by simp_all
    from suite_contract.ia1_Ok [OF C this cover assms(8), of M G all r] msg
    have out: "ia1_output ?C M sp' ?sh kp pubs all c msg" by auto
    have "bt_get (signing_commitments sp') i = Some (shift_D T sc)" by (simp add: assms(7))
    from suite_contract.ia1_verify_shifted [OF C keys kp(1) this n assms(8) out] zi
    show ?thesis by (simp add: ed25519_share_sign)
  qed
  show "\<exists>z. \<forall>M G R all r msg r'.
      ia1 ?C M G sp' \<lparr> share_identifier = i, share_R = R, share_z = z \<rparr>
        (the (bt_get shares i)) pubs all r = Ok (msg, r') \<longrightarrow>
      verify_wellformed_proof ?C M sp' \<lparr> share_identifier = i, share_R = R, share_z = z \<rparr> msg pubs =
        Some (point_mul ?C (point_mul ?C T 1)
          (- message_challenge ?C M sp' \<lparr> share_identifier = i, share_R = R, share_z = z \<rparr> pubs msg c) = 0)"
    by (intro exI [of _ "suite_contract.share_response ?C sp' pubs n kp c"] allI impI)
      (rule main, simp_all add: kp(1))
qed

lemma ed25519_torsion_commitment_witness:
  "\<exists>sp' n kp pubs sh. sign sample_ed25519 sp' n kp pubs = Ok sh \<and>
     (\<forall>sg msg. sig_R sg = share_R sh \<longrightarrow> verify sample_ed25519 sg msg pubs \<noteq> Some True)"
proof -
  obtain shares pubs rng' where
    gen: "generate_with_dealer_from_secret sample_ed25519 sample_rng True 5 3 2 0 = Some (shares, pubs, rng')"
    using dealer_returns [of 2 3 sample_ed25519 sample_rng True 5 0] sample_ed25519_pedersen by auto
  obtain coeffs where keys: "valid_keys sample_ed25519 coeffs shares pubs" "max_signers pubs = 3"
    using dealer_valid [OF sample_ed25519_contract gen] by blast
  then have "bt_contains_key shares 1" "bt_contains_key shares 3" by (simp_all add: valid_keys_def)
  then have dealt: "dealt_signers sample_ed_package shares"
    by (auto simp: dealt_signers_def sample_ed_package_def bt_contains_key_def split: if_splits)
  have i: "bt_get (signing_commitments sample_ed_package) 3 =
      Some \<lparr> comm_D = EdPoint 7 0, comm_E = EdPoint 9 0 \<rparr>"
    and k: "bt_contains_key (signing_commitments sample_ed_package) 1"
    by (simp_all add: sample_ed_package_def bt_contains_key_def)
  have T: "\<not> in_subgroup sample_ed25519 (EdPoint 0 4)"
    by (auto simp: in_subgroup_def ed25519_def sample_dalek_def ed_mul_def)
  obtain c where c: "package_challenge sample_ed25519 (sample_ed_package\<lparr> signing_commitments :=
      bt_insert 3 (shift_D (EdPoint 0 4) \<lparr> comm_D = EdPoint 7 0, comm_E = EdPoint 9 0 \<rparr>)
        (signing_commitments sample_ed_package) \<rparr>) pubs = Some c"
    by (rule ed25519_challenge)
  show ?thesis
    using ed25519_torsion_commitment [OF sample_dalek.dalek_contract_axioms gen dealt
        sample_ed25519_honest i T refl c] k
    by fastforce
qed

end
