(* ===== verification/Schnorr.thy ===== *)
theory Schnorr
  imports Signing
begin

text \<open>
  The contract of a signing session: from outside it is one Schnorr signer. The reference signer
  holds the dealer's secret and one nonce, and knows neither shares nor Lagrange coefficients nor
  pairwise blinding.
\<close>

section \<open>The reference signer\<close>

definition schnorr_sign ::
  "('s :: field, 'p, 'h) ciphersuite \<Rightarrow> 's \<Rightarrow> 's \<Rightarrow> bytes \<Rightarrow> ('s, 'p) Signature option" where
  "schnorr_sign C sk k msg =
     (let (x, vk) = normalize_keygen C sk (mul_generator C sk);
          (R, r) = normalize_share_r C (mul_generator C k) k
      in map_option (\<lambda>c. \<lparr> sig_R = R, sig_z = r + c * x \<rparr>) (challenge C vk R msg))"

context suite_contract
begin

lemma normalize_share_r_eq:
  "normalize_share_r C R k = (fst (normalize_share_r C R 1), share_sign C R * k)"
  using normalize_share_r_cases [of R k] normalize_share_r_cases [of R 1] one_neq_minus_one by auto

lemma schnorr_sign_eq:
  assumes "hd coeffs = fst (normalize_keygen C sk (mul_generator C sk))"
    and "vk = point_mul C (generator C) (hd coeffs)" "R = point_mul C (generator C) k"
  shows "schnorr_sign C sk k msg = map_option
    (\<lambda>c. \<lparr> sig_R = fst (normalize_share_r C R 1), sig_z = c * hd coeffs + share_sign C R * k \<rparr>)
    (challenge C vk R msg)"
proof -
  obtain x P where nk: "normalize_keygen C sk (mul_generator C sk) = (x, P)"
    by (cases "normalize_keygen C sk (mul_generator C sk)")
  then have "P = point_mul C (generator C) x"
    using normalize_keygen_pair [of sk] by (simp add: mul_generator_eq)
  then show ?thesis
    using assms nk normalize_share_r_eq [of R k]
    by (simp add: schnorr_sign_def mul_generator_eq challenge_normalized add.commute)
qed

end

section \<open>The property\<close>

text \<open>
  (C3) A session refines the single signer: whatever quorum signs, the aggregate of the honest
  shares is the signature that one signer with the dealer's secret gives under the sum of the
  session's nonces, and it exists whenever that signature does.
\<close>

theorem session_refines_schnorr:
  assumes "suite_contract C"
    and "generate_with_dealer_from_secret C G ovf sk n_max n_min rng = Some (shares, pubs, rng')"
    and "dealt_signers sp shares" "honest_package C N sp"
    and "unat n_min \<le> bt_len (signing_commitments sp)" "0 < bt_len (signing_commitments sp)"
    and "schnorr_sign C sk (session_nonce C N sp pubs) (message sp) = Some sg"
  shows "\<exists>out. shares_of C sp N shares pubs out \<and> aggregate sp out = Ok sg"
proof -
  obtain coeffs where keys: "valid_keys C coeffs shares pubs" "min_signers pubs = n_min"
    and hd: "hd coeffs = fst (normalize_keygen C sk (mul_generator C sk))"
    using dealer_valid [OF assms(1,2)] by blast
  note sec = valid_keys_secret [OF keys(1)]
  have vk: "verifying_key pubs = point_mul C (generator C) (hd coeffs)"
    using keys(1) by (simp add: valid_keys_def)
  note R = suite_contract.package_nonce_honest [OF assms(1,4), of pubs]
  obtain c where c: "package_challenge C sp pubs = Some c" and sg: "sg =
      \<lparr> sig_R = fst (normalize_share_r C (package_nonce C sp pubs) 1),
        sig_z = c * hd coeffs + share_sign C (package_nonce C sp pubs) * session_nonce C N sp pubs \<rparr>"
    using assms(7) suite_contract.schnorr_sign_eq [OF assms(1) hd vk R, of "message sp"]
    by (auto simp: package_challenge_def)
  obtain out where out: "shares_of C sp N shares pubs out"
    using suite_contract.dealt_shares_exist [OF assms(1) sec assms(3,4) c] by blast
  from suite_contract.dealt_aggregate [OF assms(1) sec assms(3,4) _ assms(6) c out] assms(5) keys(2)
  show ?thesis using out sg by auto
qed

lemma sample_plain_challenge: "challenge sample_plain vk R msg \<noteq> None"
  by (simp add: secp256k1_plain_def plain_challenge_def)

lemma session_refines_schnorr_witness:
  "\<exists>shares pubs rng' sg out.
     generate_with_dealer_from_secret sample_plain sample_rng True 5 3 2 0 = Some (shares, pubs, rng') \<and>
     schnorr_sign sample_plain 5 (session_nonce sample_plain sample_nonces sample_package pubs)
       (message sample_package) = Some sg \<and> aggregate sample_package out = Ok sg"
proof -
  obtain shares pubs rng' where
    gen: "generate_with_dealer_from_secret sample_plain sample_rng True 5 3 2 0 = Some (shares, pubs, rng')"
    and dealt: "dealt_signers sample_package shares"
    by (rule sample_keys)
  obtain sg where sg: "schnorr_sign sample_plain 5
      (session_nonce sample_plain sample_nonces sample_package pubs) (message sample_package) = Some sg"
    by (cases "schnorr_sign sample_plain 5 (session_nonce sample_plain sample_nonces sample_package pubs)
        (message sample_package)")
      (auto simp: schnorr_sign_def Let_def case_prod_unfold sample_plain_challenge)
  from session_refines_schnorr [OF sample_plain_contract gen dealt sample_package_honest _ _ sg] gen sg
  show ?thesis by (auto simp: sample_package_len)
qed

end
