(* ===== verification/Encodings.thy ===== *)
theory Encodings
  imports Wire_Format
begin

text \<open>
  What the encodings of src/src/wire.rs and the hash inputs of src/src/utils.rs guarantee:
  the messages survive a round trip and have one encoding each; the strings hashed for two
  different sessions differ, and so do the strings hashed for two different purposes, although
  the tag \<open>/Hs\<close> is a prefix of the tag \<open>/Hsig\<close>.
\<close>

section \<open>The strings that are hashed\<close>

definition tag :: "('s, 'p, 'h) ciphersuite \<Rightarrow> string \<Rightarrow> bytes" where
  "tag C t = ascii (CONTEXT C) @ ascii t"

definition binding_input ::
  "('s, 'p, 'h) ciphersuite \<Rightarrow> 'p \<Rightarrow> (Identifier, 'p SigningCommitments) btree_map \<Rightarrow> bytes \<Rightarrow> bytes" where
  "binding_input C vk m msg =
     tag C ''/Hnon'' @ point_bytes C vk @ encode_signer_set (bt_keys m) @ msg @ encode_commitments C m"

definition blinding_input ::
  "('s, 'p, 'h) ciphersuite \<Rightarrow> (Identifier, 'p SigningCommitments) btree_map \<Rightarrow> bytes \<Rightarrow> bytes \<Rightarrow> bytes" where
  "blinding_input C m msg k =
     tag C ''/Hs'' @ encode_commitments C m @ msg @ encode_signer_set (bt_keys m) @ k"

definition challenge_input :: "('s, 'p, 'h) ciphersuite \<Rightarrow> 'p \<Rightarrow> 'p \<Rightarrow> bytes \<Rightarrow> bytes" where
  "challenge_input C vk r msg = tag C ''/Hsig'' @ point_bytes C vk @ point_bytes C r @ msg"

definition randomizer_input :: "('s, 'p, 'h) ciphersuite \<Rightarrow> bytes \<Rightarrow> bytes \<Rightarrow> bytes" where
  "randomizer_input C k view = tag C ''/HIA'' @ k @ view"

text \<open>The tags differ at their third character, except for \<open>/Hs\<close> and \<open>/Hsig\<close>.\<close>

lemma ascii_literals:
  "ascii ''/Hnon'' = [47, 72, 110, 111, 110]" "ascii ''/Hs'' = [47, 72, 115]"
  "ascii ''/Hsig'' = [47, 72, 115, 105, 103]" "ascii ''/HIA'' = [47, 72, 73, 65]"
  by (simp_all add: ascii_def)

lemmas hash_inputs = binding_input_def blinding_input_def challenge_input_def randomizer_input_def
  tag_def ascii_literals

text \<open>The code's functions are the hashes of these strings.\<close>

locale hashed_wire = wire_contract C +
  sc: scalar_hasher "hasher_new C" "hasher_update C" "hasher_finish C" digest
  for C :: "('s, 'p, 'h) ciphersuite" and digest :: "bytes \<Rightarrow> 's"
begin

lemma hash_to_scalar_digest: "hash_to_scalar C parts = digest (concat parts)"
  by (simp add: hash_to_scalar_def sc.finish_parts)

lemma binding_factor_digest:
  "binding_factor C vk (encode_signer_set (bt_keys m)) msg (encode_commitments C m) =
     digest (binding_input C vk m msg)"
  by (simp add: binding_factor_def hash_to_scalar_digest binding_input_def tag_def)

lemma blinding_digest:
  "finish_with C (blinding_base C (encode_commitments C m) msg (encode_signer_set (bt_keys m))) k =
     digest (blinding_input C m msg k)"
  by (simp add: blinding_base_one_shot hash_to_scalar_digest blinding_input_def tag_def)

lemma randomizer_digest: "blinding_randomizer C k view = digest (randomizer_input C k view)"
  by (simp add: blinding_randomizer_def hash_to_scalar_digest randomizer_input_def tag_def)

end

context wire_contract
begin

lemma length_session_bytes:
  "length (encode_signer_set (bt_keys m)) = 2 * bt_len m"
  by (simp add: length_encode_signer_set)

lemma binding_input_inject:
  assumes "length msg = length msg'"
  shows "binding_input C vk m msg = binding_input C vk' m' msg' \<longleftrightarrow> vk = vk' \<and> m = m' \<and> msg = msg'"
proof
  assume eq: "binding_input C vk m msg = binding_input C vk' m' msg'"
  have len: "length (binding_input C vk n x) =
      length (tag C ''/Hnon'') + point_len C + length x + bt_len n * (4 + 2 * point_len C)" for vk n x
    by (simp add: binding_input_def length_point_bytes length_session_bytes length_encode_commitments
        algebra_simps)
  have "bt_len m * (4 + 2 * point_len C) = bt_len m' * (4 + 2 * point_len C)"
    using arg_cong [OF eq, of length] assms unfolding len by linarith
  then have n: "bt_len m = bt_len m'" by simp
  from eq assms n show "vk = vk' \<and> m = m' \<and> msg = msg'"
    by (auto simp: binding_input_def append_eq_append_conv length_point_bytes length_session_bytes
        length_encode_commitments encode_commitments_inject point_bytes_inject)
qed simp

lemma blinding_input_inject:
  assumes "length msg = length msg'" "length k = length k'"
  shows "blinding_input C m msg k = blinding_input C m' msg' k' \<longleftrightarrow> m = m' \<and> msg = msg' \<and> k = k'"
proof
  assume eq: "blinding_input C m msg k = blinding_input C m' msg' k'"
  have len: "length (blinding_input C n x l) =
      length (tag C ''/Hs'') + length x + length l + bt_len n * (4 + 2 * point_len C)" for n x l
    by (simp add: blinding_input_def length_session_bytes length_encode_commitments algebra_simps)
  have "bt_len m * (4 + 2 * point_len C) = bt_len m' * (4 + 2 * point_len C)"
    using arg_cong [OF eq, of length] assms unfolding len by linarith
  then have n: "bt_len m = bt_len m'" by simp
  from eq assms n show "m = m' \<and> msg = msg' \<and> k = k'"
    by (auto simp: blinding_input_def append_eq_append_conv length_session_bytes
        length_encode_commitments encode_commitments_inject)
qed simp

text \<open>The strings of \<open>/Hs\<close> and \<open>/Hsig\<close> differ in length.\<close>

lemma blinding_not_challenge:
  assumes "length msg = 32" "length msg' = 32" "length k = 32" "point_len C \<noteq> 15"
  shows "blinding_input C m msg k \<noteq> challenge_input C vk r msg'"
proof
  assume "blinding_input C m msg k = challenge_input C vk r msg'"
  from arg_cong [OF this, of length] assms(1-3)
  have "bt_len m * (4 + 2 * point_len C) + 32 = 2 + 2 * point_len C"
    by (simp add: blinding_input_def challenge_input_def tag_def ascii_literals length_point_bytes
        length_session_bytes length_encode_commitments algebra_simps)
  with assms(4) show False by (cases "bt_len m") auto
qed

end

lemma hash_inputs_differ:
  "binding_input C vk m msg \<noteq> blinding_input C m' msg' k"
  "binding_input C vk m msg \<noteq> challenge_input C vk' r msg'"
  "binding_input C vk m msg \<noteq> randomizer_input C k view"
  "blinding_input C m' msg' k \<noteq> randomizer_input C k' view"
  "challenge_input C vk' r msg' \<noteq> randomizer_input C k' view"
  by (simp_all add: hash_inputs)

section \<open>The contracts hold for the sample libraries\<close>

interpretation sample_plain_hashed: hashed_wire sample_plain "\<lambda>bs. sample_reduce (sample_digest bs)"
  by unfold_locales (simp add: secp256k1_plain_def sample_k256_def sha256_scalar_finish_def
      foldl_append_concat)

section \<open>The properties\<close>

context wire_contract
begin

lemmas message_facts = commitments.dec_enc share.dec_enc signature.dec_enc
  commitments.enc_len share.enc_len signature.enc_len

end

context canonical_wire
begin

lemmas message_parses = ccommitments.dec_iff cshare.dec_iff csignature.dec_iff
  ccommitments.dec_fails_iff cshare.dec_fails_iff csignature.dec_fails_iff

end

text \<open>
  (C20) Round trips: what each of the three messages writes with \<open>to_bytes\<close> is read back by
  its \<open>from_bytes\<close> as the same message, and the encodings have the fixed lengths the module
  documents: two points; identifier, point and scalar; point and scalar.
\<close>

theorem messages_roundtrip:
  assumes "wire_contract C"
  shows "SigningCommitments_from_bytes C (SigningCommitments_to_bytes C c) = Ok c \<and>
    SignatureShare_from_bytes C (SignatureShare_to_bytes C sh) = Ok sh \<and>
    Signature_from_bytes C (Signature_to_bytes C sg) = Ok sg \<and>
    length (SigningCommitments_to_bytes C c) = 2 * point_len C \<and>
    length (SignatureShare_to_bytes C sh) = 2 + point_len C + scalar_len C \<and>
    length (Signature_to_bytes C sg) = point_len C + scalar_len C"
  by (intro conjI wire_contract.message_facts [OF assms])

lemma messages_roundtrip_witness:
  "SignatureShare_from_bytes sample_plain (SignatureShare_to_bytes sample_plain
     \<lparr> share_identifier = 513, share_R = 70, share_z = 65000 \<rparr>) =
   Ok \<lparr> share_identifier = 513, share_R = 70, share_z = 65000 \<rparr>"
  using messages_roundtrip [OF sample_plain_wire.wire_contract_axioms] by blast







end
