(* ===== verification/Key_File.thy ===== *)
theory Key_File
  imports Keygen
begin

text \<open>
  src/src/keygen.rs, the key file: writing, reading, validation, and the dealer run from a key
  file. The file system, serde_yaml_ng and hex are the record \<open>key_host\<close>; a file system is a
  value that writing returns updated. An \<open>Err\<close> is the \<open>Box<dyn Error>\<close> of the code.
\<close>

section \<open>The functions\<close>

record StoredKey =
  scheme :: string
  stored_max_signers :: Identifier
  stored_min_signers :: Identifier
  secret_key_hex :: string
  verifying_key_hex :: string

text \<open>
  \<open>fs::write\<close> may change the file system even when it fails; \<open>fs::read_to_string\<close> only reads.
\<close>

record 'f key_host = hex_lib +
  yaml_to_string :: "StoredKey \<Rightarrow> string option"
  yaml_from_str :: "string \<Rightarrow> StoredKey option"
  fs_write :: "string \<Rightarrow> string \<Rightarrow> 'f \<Rightarrow> bool \<times> 'f"
  fs_read_to_string :: "string \<Rightarrow> 'f \<Rightarrow> string option"

abbreviation hex_of :: "'f key_host \<Rightarrow> hex_lib" where
  "hex_of H \<equiv> hex_lib.truncate H"

definition write_key_yaml ::
  "('s :: field, 'p, 'h) ciphersuite \<Rightarrow> 'f key_host \<Rightarrow> string \<Rightarrow> 's \<Rightarrow> Identifier \<Rightarrow> Identifier \<Rightarrow>
   'f \<Rightarrow> (boxed_error, StoredKey) outcome \<times> 'f" where
  "write_key_yaml C H path secret_key n_max n_min fs =
     (if \<not> n_min \<le> n_max then (Panic, fs)
      else
        let vk_raw = mul_generator C secret_key;
            (sk, vk) = normalize_keygen C secret_key vk_raw;
            stored_key = \<lparr> scheme = SCHEME_ID C, stored_max_signers = n_max,
              stored_min_signers = n_min, secret_key_hex = scalar_to_hex C (hex_of H) sk,
              verifying_key_hex = hex_encode H (point_bytes C vk) \<rparr>
        in case yaml_to_string H stored_key of
             None \<Rightarrow> (Err YamlError, fs)
           | Some yaml \<Rightarrow>
               let (written, fs) = fs_write H path yaml fs
               in if written then (Ok stored_key, fs) else (Err IoError, fs))"

definition validate_stored_key ::
  "('s :: field, 'p, 'h) ciphersuite \<Rightarrow> 'f key_host \<Rightarrow> StoredKey \<Rightarrow> (boxed_error, unit) outcome" where
  "validate_stored_key C H stored_key =
     (if scheme stored_key \<noteq> SCHEME_ID C
      then Err (UnsupportedScheme (SCHEME_ID C) (scheme stored_key))
      else if stored_min_signers stored_key = 0 then Err MinSignersZero
      else if stored_max_signers stored_key = 0 then Err MaxSignersZero
      else if stored_min_signers stored_key > stored_max_signers stored_key then Err MinExceedsMax
      else and_then (scalar_from_hex C (hex_of H) (secret_key_hex stored_key)) (\<lambda>secret_key.
        let vk_raw = mul_generator C secret_key;
            (_, vk) = normalize_keygen C secret_key vk_raw;
            regenerated_vk_hex = hex_encode H (point_bytes C vk)
        in if regenerated_vk_hex \<noteq> verifying_key_hex stored_key then Err InconsistentKeyFile
           else Ok ()))"

definition read_key_yaml ::
  "('s :: field, 'p, 'h) ciphersuite \<Rightarrow> 'f key_host \<Rightarrow> string \<Rightarrow> 'f \<Rightarrow>
   (boxed_error, StoredKey) outcome" where
  "read_key_yaml C H path fs =
     and_then (ok_or (fs_read_to_string H path fs) IoError) (\<lambda>yaml.
     and_then (ok_or (yaml_from_str H yaml) YamlError) (\<lambda>stored_key.
     and_then (validate_stored_key C H stored_key) (\<lambda>_. Ok stored_key)))"

definition generate_with_dealer_from_key_yaml ::
  "('s :: field, 'p :: plus, 'h) ciphersuite \<Rightarrow> ('r, 's) rng_lib \<Rightarrow> 'f key_host \<Rightarrow> bool \<Rightarrow>
   string \<Rightarrow> 'f \<Rightarrow> 'r \<Rightarrow> (boxed_error, 's KeyShares \<times> 'p PublicKeyPackage \<times> 'r) outcome" where
  "generate_with_dealer_from_key_yaml C G H ovf path fs rng =
     and_then (read_key_yaml C H path fs) (\<lambda>stored_key.
     and_then (scalar_from_hex C (hex_of H) (secret_key_hex stored_key)) (\<lambda>secret_key.
     and_then (unwrap (generate_with_dealer_from_secret C G ovf secret_key
         (stored_max_signers stored_key) (stored_min_signers stored_key) rng))
       (\<lambda>(shares, pubkeys, rng).
         let regenerated_vk_hex = hex_encode H (point_bytes C (verifying_key pubkeys))
         in if regenerated_vk_hex \<noteq> verifying_key_hex stored_key then Err InconsistentKeyFile
            else Ok (shares, pubkeys, rng))))"

definition generate_with_dealer_and_write_key_yaml ::
  "('s :: field, 'p :: plus, 'h) ciphersuite \<Rightarrow> ('r, 's) rng_lib \<Rightarrow> 'f key_host \<Rightarrow> bool \<Rightarrow>
   string \<Rightarrow> Identifier \<Rightarrow> Identifier \<Rightarrow> 'f \<Rightarrow> 'r \<Rightarrow>
   (boxed_error, 's KeyShares \<times> 'p PublicKeyPackage \<times> StoredKey \<times> 'r) outcome \<times> 'f" where
  "generate_with_dealer_and_write_key_yaml C G H ovf path n_max n_min fs rng =
     (let (secret_key, rng) = scalar_random G rng;
          (stored, fs) = write_key_yaml C H path secret_key n_max n_min fs
      in (and_then stored (\<lambda>stored_key.
          and_then (scalar_from_hex C (hex_of H) (secret_key_hex stored_key)) (\<lambda>normalized_secret_key.
          and_then (unwrap (generate_with_dealer_from_secret C G ovf normalized_secret_key n_max n_min rng))
            (\<lambda>(shares, pubkeys, rng). Ok (shares, pubkeys, stored_key, rng)))), fs))"

section \<open>Validation\<close>

text \<open>The public key that belongs to a secret key, as the key file spells it.\<close>

definition vk_hex :: "('s :: field, 'p, 'h) ciphersuite \<Rightarrow> 'f key_host \<Rightarrow> 's \<Rightarrow> string" where
  "vk_hex C H sk = hex_encode H (point_bytes C (snd (normalize_keygen C sk (mul_generator C sk))))"

lemma scalar_from_hex_no_panic: "scalar_from_hex C X s \<noteq> Panic"
  by (simp add: scalar_from_hex_def outcome_simps)

lemma validate_eq:
  "validate_stored_key C H k =
     (if scheme k \<noteq> SCHEME_ID C then Err (UnsupportedScheme (SCHEME_ID C) (scheme k))
      else if stored_min_signers k = 0 then Err MinSignersZero
      else if stored_max_signers k = 0 then Err MaxSignersZero
      else if stored_min_signers k > stored_max_signers k then Err MinExceedsMax
      else and_then (scalar_from_hex C (hex_of H) (secret_key_hex k)) (\<lambda>sk.
        if vk_hex C H sk \<noteq> verifying_key_hex k then Err InconsistentKeyFile else Ok ()))"
  by (simp add: validate_stored_key_def vk_hex_def Let_def case_prod_unfold)

text \<open>A key file that passes: what the dealer can be run from.\<close>

definition sound_key ::
  "('s :: field, 'p, 'h) ciphersuite \<Rightarrow> 'f key_host \<Rightarrow> StoredKey \<Rightarrow> 's \<Rightarrow> bool" where
  "sound_key C H k sk \<longleftrightarrow>
     scheme k = SCHEME_ID C \<and> 1 \<le> stored_min_signers k \<and>
     stored_min_signers k \<le> stored_max_signers k \<and>
     scalar_from_hex C (hex_of H) (secret_key_hex k) = Ok sk \<and> verifying_key_hex k = vk_hex C H sk"

lemma Identifier_one_le: "(1 :: Identifier) \<le> i \<longleftrightarrow> i \<noteq> 0"
  by (simp add: word_le_nat_alt Suc_le_eq unat_gt_0)

lemma validate_Ok_iff: "validate_stored_key C H k = Ok u \<longleftrightarrow> (\<exists>sk. sound_key C H k sk)"
  by (auto simp: validate_eq sound_key_def Identifier_one_le outcome_simps not_less split: if_splits)

lemma validate_no_panic: "validate_stored_key C H k \<noteq> Panic"
  by (auto simp: validate_eq outcome_simps scalar_from_hex_no_panic)

lemma read_key_no_panic: "read_key_yaml C H path fs \<noteq> Panic"
  by (auto simp: read_key_yaml_def outcome_simps validate_no_panic)

lemma read_key_sound:
  assumes "read_key_yaml C H path fs = Ok k"
  obtains sk where "sound_key C H k sk"
  using assms by (auto simp: read_key_yaml_def outcome_simps validate_Ok_iff)

section \<open>What the host and the curve promise\<close>

locale key_files = suite_contract C + wire_contract C
  for C :: "('s :: field, 'p :: ab_group_add, 'h) ciphersuite" and H :: "'f key_host" +
  assumes yaml_parse: "yaml_to_string H k = Some s \<Longrightarrow> yaml_from_str H s = Some k"
    and hex_parse: "hex_decode H (hex_encode H bs) = Some bs"
    and write_read: "fs_write H path s fs = (True, fs') \<Longrightarrow> fs_read_to_string H path fs' = Some s"
begin

lemma hex_scalar: "scalar_from_hex C (hex_of H) (scalar_to_hex C (hex_of H) sk) = Ok sk"
proof -
  have "scalar_from_bytes C (scalar_to_repr C sk) = Some sk"
    using scalar_from_bytes_bytes by (simp add: scalar_bytes_def)
  then show ?thesis
    by (simp add: scalar_from_hex_def scalar_to_hex_def hex_lib.truncate_def hex_parse)
qed

lemma vk_hex_normalized:
  "vk_hex C H (fst (normalize_keygen C sk (mul_generator C sk))) = vk_hex C H sk"
proof -
  obtain sk' vk' where n: "normalize_keygen C sk (point_mul C (generator C) sk) = (sk', vk')"
    by (cases "normalize_keygen C sk (point_mul C (generator C) sk)")
  from normalize_keygen_pair [OF n] normalize_keygen_idem [OF n] n
  show ?thesis by (simp add: vk_hex_def mul_generator_eq)
qed

lemma write_read_pair:
  "fst (fs_write H path s fs) \<Longrightarrow> fs_read_to_string H path (snd (fs_write H path s fs)) = Some s"
  using write_read [of path s fs] by (cases "fs_write H path s fs") simp

text \<open>What \<open>write_key_yaml\<close> stores, when it succeeds.\<close>

lemma write_key_Ok:
  assumes "write_key_yaml C H path sk n_max n_min fs = (Ok k, fs')"
  shows "n_min \<le> n_max" "stored_max_signers k = n_max" "stored_min_signers k = n_min"
    "scheme k = SCHEME_ID C" "verifying_key_hex k = vk_hex C H sk"
    "scalar_from_hex C (hex_of H) (secret_key_hex k) =
       Ok (fst (normalize_keygen C sk (mul_generator C sk)))"
    "\<exists>s. fs_read_to_string H path fs' = Some s \<and> yaml_from_str H s = Some k"
  using assms
  by (auto simp: write_key_yaml_def Let_def case_prod_unfold vk_hex_def hex_scalar
      write_read_pair yaml_parse split: if_splits option.splits)

lemma read_written:
  assumes "write_key_yaml C H path sk n_max n_min fs = (Ok k, fs')"
  shows "read_key_yaml C H path fs' = and_then (validate_stored_key C H k) (\<lambda>_. Ok k)"
  using write_key_Ok(7) [OF assms] by (auto simp: read_key_yaml_def)

lemma written_sound:
  assumes "write_key_yaml C H path sk n_max n_min fs = (Ok k, fs')" "1 \<le> n_min"
  shows "sound_key C H k (fst (normalize_keygen C sk (mul_generator C sk)))"
  using write_key_Ok [OF assms(1)] assms(2) vk_hex_normalized by (simp add: sound_key_def)

text \<open>The dealer's group key is the one in the file.\<close>

lemma dealer_vk_hex:
  assumes "generate_with_dealer_from_secret C G ovf sk n_max n_min rng = Some (shares, pubs, rng')"
  shows "hex_encode H (point_bytes C (verifying_key pubs)) = vk_hex C H sk"
proof -
  obtain coeffs where "valid_keys C coeffs shares pubs"
    "hd coeffs = fst (normalize_keygen C sk (mul_generator C sk))"
    using dealer_valid [OF suite_contract_axioms assms] by blast
  then have "verifying_key pubs = snd (normalize_keygen C sk (mul_generator C sk))"
    using normalize_keygen_pair [of sk]
    by (cases "normalize_keygen C sk (mul_generator C sk)") (simp add: valid_keys_def mul_generator_eq)
  then show ?thesis by (simp add: vk_hex_def)
qed

lemma from_key_yaml_eq:
  "generate_with_dealer_from_key_yaml C G H ovf path fs rng =
     and_then (read_key_yaml C H path fs) (\<lambda>k.
     and_then (scalar_from_hex C (hex_of H) (secret_key_hex k)) (\<lambda>sk.
       unwrap (generate_with_dealer_from_secret C G ovf sk (stored_max_signers k)
         (stored_min_signers k) rng)))"
proof (cases "read_key_yaml C H path fs")
  case (Ok k)
  then obtain sk where sk: "sound_key C H k sk" by (rule read_key_sound)
  show ?thesis
  proof (cases "generate_with_dealer_from_secret C G ovf sk (stored_max_signers k) (stored_min_signers k) rng")
    case None
    with Ok sk show ?thesis by (simp add: generate_with_dealer_from_key_yaml_def sound_key_def)
  next
    case (Some r)
    obtain shares pubs rng' where r: "r = (shares, pubs, rng')" by (cases r)
    have "hex_encode H (point_bytes C (verifying_key pubs)) = verifying_key_hex k"
      using dealer_vk_hex [OF Some [unfolded r]] sk by (simp add: sound_key_def)
    with Ok sk Some r show ?thesis
      by (simp add: generate_with_dealer_from_key_yaml_def sound_key_def)
  qed
qed (simp_all add: generate_with_dealer_from_key_yaml_def)

end

end
