(* ===== verification/Bip340_Bytes.thy ===== *)
theory Bip340_Bytes
  imports Signing
begin

text \<open>
  The byte-level functions of src/src/ciphersuite/bip340.rs: the x-only public key, the 64-byte
  signature, and standalone verification. \<open>bip340_verify_bytes\<close> never panics and accepts exactly
  what the standard accepts; on a signature of the crate it agrees with \<open>verify\<close>. \<open>None\<close> is the
  panic of an assertion or of a slice of the identity's encoding.
\<close>

section \<open>The functions\<close>

definition xonly_pubkey :: "('s, 'p, 'd) k256_lib \<Rightarrow> 'p PublicKeyPackage \<Rightarrow> bytes option" where
  "xonly_pubkey K pubkeys = x_only_bytes K (verifying_key pubkeys)"

definition bip340_signature_to_bytes ::
  "('s, 'p, 'd) k256_lib \<Rightarrow> ('s, 'p) Signature \<Rightarrow> bytes option" where
  "bip340_signature_to_bytes K sig =
     (if has_odd_y K (sig_R sig) then None
      else Option.bind (x_only_bytes K (sig_R sig)) (\<lambda>r_x.
        let s_bytes = scalar_to_repr K (sig_z sig)
        in Some (r_x @ s_bytes)))"

definition bip340_verify_bytes ::
  "('s :: uminus, 'p :: ab_group_add, 'd) k256_lib \<Rightarrow> bytes \<Rightarrow> bytes \<Rightarrow> bytes \<Rightarrow> bool option" where
  "bip340_verify_bytes K sig msg pubkey_x =
     (let r_x = take 32 sig;
          s_bytes = drop 32 sig
      in case scalar_of_repr K s_bytes of None \<Rightarrow> Some False | Some s \<Rightarrow>
        (case lift_x K pubkey_x of None \<Rightarrow> Some False | Some p \<Rightarrow>
          let c = bip340_challenge_scalar K r_x pubkey_x msg;
              r_computed = point_mul K (generator K) s + point_mul K p (- c)
          in if r_computed = 0 \<or> has_odd_y K r_computed then Some False
             else map_option (\<lambda>x. x = r_x) (x_only_bytes K r_computed)))"

section \<open>Points and their x coordinates\<close>

context k256_contract
begin

lemma even_sec1:
  assumes "P \<noteq> 0" "\<not> has_odd_y K P"
  obtains x where "to_sec1_point K True P = 2 # x" "x_only_bytes K P = Some x" "length x = 32"
  using sec1_point [OF assms(1)] assms(2)
  by (auto simp: has_odd_y_def x_only_bytes_def Let_def)

text \<open>A non-identity point with even y is determined by its x coordinate.\<close>

lemma x_only_inject:
  assumes "\<not> has_odd_y K P" "\<not> has_odd_y K Q" "x_only_bytes K P = x_only_bytes K Q" "P \<noteq> 0"
  shows "P = Q"
proof -
  have "Q \<noteq> 0" using assms(3,4) x_only_None_iff by metis
  obtain x where "to_sec1_point K True P = 2 # x" "x_only_bytes K P = Some x"
    using assms by (elim even_sec1)
  moreover obtain y where "to_sec1_point K True Q = 2 # y" "x_only_bytes K Q = Some y"
    using assms(2) \<open>Q \<noteq> 0\<close> by (elim even_sec1)
  ultimately show ?thesis
    using assms(3) sec1_parse [OF \<open>P \<noteq> 0\<close>] sec1_parse [OF \<open>Q \<noteq> 0\<close>] by simp
qed

lemma lift_x_even:
  assumes "P \<noteq> 0" "\<not> has_odd_y K P" "x_only_bytes K P = Some x"
  shows "lift_x K x = Some P"
  using assms sec1_parse [OF assms(1)] by (auto simp: lift_x_def elim: even_sec1)

lemma lift_x_D:
  assumes "lift_x K x = Some P" "length x = 32" "P \<noteq> 0"
  shows "\<not> has_odd_y K P \<and> x_only_bytes K P = Some x"
proof -
  have enc: "to_sec1_point K True P = 2 # x"
    using assms(1,2) sec1_canonical by (simp add: lift_x_def)
  then have even: "\<not> has_odd_y K P" by (simp add: has_odd_y_def)
  then show ?thesis using even_sec1 [OF assms(3)] enc by (metis list.inject)
qed

lemma point_mul_neg: "point_mul K P (- c) = - point_mul K P c"
  using cofactor_one [of P] by (auto simp: gen_calc)

lemma normalized_key_even:
  "\<not> has_odd_y K (snd (normalize_keygen (secp256k1_bip340 K) sk vk))"
  by (simp add: secp256k1_bip340_def bip340_normalize_keygen_def even_y_neg)

end

section \<open>Standalone verification\<close>

text \<open>What BIP-340 asks for: a point R with even y and the given x that satisfies the equation.\<close>

definition bip340_valid ::
  "('s, 'p :: ab_group_add, 'd) k256_lib \<Rightarrow> bytes \<Rightarrow> bytes \<Rightarrow> bytes \<Rightarrow> bool" where
  "bip340_valid K sig msg pubkey_x \<longleftrightarrow>
     (\<exists>s P R. scalar_of_repr K (drop 32 sig) = Some s \<and> lift_x K pubkey_x = Some P \<and>
        R \<noteq> 0 \<and> \<not> has_odd_y K R \<and> x_only_bytes K R = Some (take 32 sig) \<and>
        point_mul K (generator K) s =
          R + point_mul K P (bip340_challenge_scalar K (take 32 sig) pubkey_x msg))"

text \<open>The curve crate's scalar encoding, which the 64-byte format contains.\<close>

locale k256_scalars = k256_contract +
  assumes scalar_parse: "scalar_of_repr K (scalar_to_repr K k) = Some k"
    and scalar_length: "length (scalar_to_repr K k) = 32"

context k256_contract
begin

lemma verify_bytes_iff: "bip340_verify_bytes K sig msg pk = Some (bip340_valid K sig msg pk)"
proof (cases "scalar_of_repr K (drop 32 sig)")
  case None
  then show ?thesis by (simp add: bip340_verify_bytes_def bip340_valid_def)
next
  case s: (Some s)
  show ?thesis
  proof (cases "lift_x K pk")
    case None
    with s show ?thesis by (simp add: bip340_verify_bytes_def bip340_valid_def)
  next
    case P: (Some P)
    define c where "c = bip340_challenge_scalar K (take 32 sig) pk msg"
    define R where "R = point_mul K (generator K) s + point_mul K P (- c)"
    have "point_mul K (generator K) s = Q + point_mul K P c \<longleftrightarrow> R = Q" for Q
      by (auto simp: R_def point_mul_neg algebra_simps)
    then have "bip340_valid K sig msg pk \<longleftrightarrow>
        R \<noteq> 0 \<and> \<not> has_odd_y K R \<and> x_only_bytes K R = Some (take 32 sig)"
      using s P by (auto simp: bip340_valid_def c_def)
    moreover have "bip340_verify_bytes K sig msg pk =
        (if R = 0 \<or> has_odd_y K R then Some False
         else map_option (\<lambda>x. x = take 32 sig) (x_only_bytes K R))"
      using s P by (simp add: bip340_verify_bytes_def Let_def R_def c_def)
    ultimately show ?thesis
      using x_only_None_iff [of R] by (cases "x_only_bytes K R") auto
  qed
qed

end

context k256_scalars
begin

lemma signature_bytes:
  assumes "bip340_signature_to_bytes K sg = Some bs"
  shows "x_only_bytes K (sig_R sg) = Some (take 32 bs)" "length bs = 64" "\<not> has_odd_y K (sig_R sg)"
    "scalar_of_repr K (drop 32 bs) = Some (sig_z sg)" "sig_R sg \<noteq> 0"
proof -
  obtain x where x: "\<not> has_odd_y K (sig_R sg)" "x_only_bytes K (sig_R sg) = Some x"
    "bs = x @ scalar_to_repr K (sig_z sg)"
    using assms by (auto simp: bip340_signature_to_bytes_def bind_eq_Some_conv split: if_splits)
  show "sig_R sg \<noteq> 0" using x(2) x_only_None_iff by force
  then have "length x = 32" using x(1,2) by (elim even_sec1) auto
  with x show "x_only_bytes K (sig_R sg) = Some (take 32 bs)" "length bs = 64"
    "\<not> has_odd_y K (sig_R sg)" "scalar_of_repr K (drop 32 bs) = Some (sig_z sg)"
    by (simp_all add: scalar_parse scalar_length)
qed

lemma verify_iff_bytes:
  assumes even: "\<not> has_odd_y K (verifying_key pubs)"
  shows "verify (secp256k1_bip340 K) sg msg pubs = Some True \<longleftrightarrow>
    (\<exists>bs pk. bip340_signature_to_bytes K sg = Some bs \<and> xonly_pubkey K pubs = Some pk \<and>
       bip340_verify_bytes K bs msg pk = Some True)" (is "?lhs \<longleftrightarrow> ?rhs")
proof
  note suite = secp256k1_bip340_def verify_def bip340_accept_r_def bip340_challenge_def
    default_mul_generator_def bind_eq_Some_conv
  assume ?lhs
  then obtain r_x p_x where x: "\<not> has_odd_y K (sig_R sg)" "x_only_bytes K (sig_R sg) = Some r_x"
      "x_only_bytes K (verifying_key pubs) = Some p_x"
    and eq: "point_mul K (generator K) (sig_z sg) =
      sig_R sg + point_mul K (verifying_key pubs) (bip340_challenge_scalar K r_x p_x msg)"
    by (auto simp: suite split: if_splits)
  have nz: "sig_R sg \<noteq> 0" "verifying_key pubs \<noteq> 0" using x x_only_None_iff by force+
  define bs where "bs = r_x @ scalar_to_repr K (sig_z sg)"
  have bs: "bip340_signature_to_bytes K sg = Some bs"
    using x by (simp add: bip340_signature_to_bytes_def bs_def)
  note parts = signature_bytes [OF bs]
  have "bip340_valid K bs msg p_x"
    unfolding bip340_valid_def
    using parts x nz eq lift_x_even [OF nz(2) even x(3)]
    by (intro exI [of _ "sig_z sg"] exI [of _ "verifying_key pubs"] exI [of _ "sig_R sg"]) simp
  with bs x(3) show ?rhs by (simp add: verify_bytes_iff xonly_pubkey_def)
next
  assume ?rhs
  then obtain bs p_x where bs: "bip340_signature_to_bytes K sg = Some bs"
    and p_x: "x_only_bytes K (verifying_key pubs) = Some p_x" and valid: "bip340_valid K bs msg p_x"
    by (auto simp: verify_bytes_iff xonly_pubkey_def)
  note parts = signature_bytes [OF bs]
  have nz: "verifying_key pubs \<noteq> 0" using p_x x_only_None_iff by force
  from valid obtain R where R: "R \<noteq> 0" "\<not> has_odd_y K R" "x_only_bytes K R = Some (take 32 bs)"
    and eq: "point_mul K (generator K) (sig_z sg) =
      R + point_mul K (verifying_key pubs) (bip340_challenge_scalar K (take 32 bs) p_x msg)"
    using parts lift_x_even [OF nz even p_x] by (auto simp: bip340_valid_def)
  have "R = sig_R sg" using x_only_inject [OF R(2) parts(3) _ R(1)] R(3) parts(1) by simp
  with eq parts p_x show ?lhs
    by (simp add: secp256k1_bip340_def verify_def bip340_accept_r_def bip340_challenge_def
        default_mul_generator_def)
qed

end

section \<open>The identity\<close>

text \<open>The challenge of BIP-340 hashes x coordinates, so it panics on the identity and only there.\<close>

context k256_contract
begin

lemma bip340_challenge_None:
  "challenge (secp256k1_bip340 K) vk r msg = None \<longleftrightarrow> r = 0 \<or> vk = 0"
  by (auto simp: secp256k1_bip340_def bip340_challenge_def x_only_None_iff bind_eq_None_conv)

lemma bip340_signature_None:
  "bip340_signature_to_bytes K sg = None \<longleftrightarrow> has_odd_y K (sig_R sg) \<or> sig_R sg = 0"
  by (auto simp: bip340_signature_to_bytes_def x_only_None_iff Let_def bind_eq_None_conv)

lemma mul_identity: "point_mul K 0 c = 0"
  by (rule mul_zero_point)

end

text \<open>A commitment that cancels those already published.\<close>

lemma sum_commitments_insert:
  fixes cs :: "(Identifier, 'b :: ab_group_add SigningCommitments) btree_map"
  assumes "\<not> bt_contains_key cs m"
  shows "sum_commitments (bt_insert m sc cs) =
    (fst (sum_commitments cs) + comm_D sc, snd (sum_commitments cs) + comm_E sc)"
proof -
  have keys: "bt_keys (bt_insert m sc cs) = insort m (bt_keys cs)"
  proof (rule bt_keys_unique)
    have "sorted (insort m (bt_keys cs))" "distinct (insort m (bt_keys cs))"
      using sorted_bt_keys [of cs] assms
      by (simp_all add: sorted_insort distinct_insort strict_sorted_iff del: sorted_bt_keys)
    then show "sorted_wrt (<) (insort m (bt_keys cs))" by (simp add: strict_sorted_iff)
    show "bt_contains_key (bt_insert m sc cs) k \<longleftrightarrow> k \<in> set (insort m (bt_keys cs))" for k
      by (auto simp: set_insort_key bt_contains_key_def)
  qed
  have sum: "sum_list (map f (insort m ks)) = f m + sum_list (map f ks)" for f :: "Identifier \<Rightarrow> 'b" and ks
    by (induction ks) (auto simp: add.left_commute)
  have vals: "map (\<lambda>k. g (the (if k = m then Some sc else bt_get cs k))) (bt_keys cs) =
      map (\<lambda>k. g (the (bt_get cs k))) (bt_keys cs)" for g :: "'b SigningCommitments \<Rightarrow> 'b"
    using assms by (intro map_cong) auto
  show ?thesis
    by (simp add: sum_commitments_eq bt_values_conv keys sum comp_def vals add.commute)
qed

section \<open>The contract holds for the sample library\<close>

interpretation sample_k256_scalars: k256_scalars sample_k256
  by unfold_locales (simp_all add: sample_k256_def scalar32_parse_bytes length_scalar32)

lemma sample_bip340_pedersen: "pedersen_generator sample_bip340 \<noteq> None"
  by (simp add: secp256k1_bip340_def sample_k256_def secp_pedersen_generator_def gf_calc)

lemma sample_bip340_honest: "honest_package sample_bip340 sample_nonces sample_package"
  by (simp add: honest_package_def sample_nonces_def sample_package_def secp256k1_bip340_def
      default_mul_generator_def sample_k256_def)

lemma sample_bip340_nonce:
  assumes "verifying_key pubs = - 5"
  shows "package_nonce sample_bip340 sample_package pubs \<noteq> 0"
proof -
  have "fst (sum_commitments (signing_commitments sample_package)) +
      point_mul sample_bip340 (snd (sum_commitments (signing_commitments sample_package)))
        (binding_factor sample_bip340 (- 5)
          (encode_signer_set (bt_keys (signing_commitments sample_package)))
          (message sample_package) (encode_commitments sample_bip340 (signing_commitments sample_package))) \<noteq> 0"
    by code_simp
  then show ?thesis by (simp add: package_nonce_def package_binding_def case_prod_unfold Let_def assms)
qed

text \<open>A BIP-340 session of signers 1 and 3; the dealer's key 5 is odd and gets negated.\<close>

lemma sample_bip340_session:
  obtains shares pubs rng' out where
    "generate_with_dealer_from_secret sample_bip340 sample_rng True 5 3 2 0 = Some (shares, pubs, rng')"
    "dealt_signers sample_package shares" "verifying_key pubs = - 5"
    "shares_of sample_bip340 sample_package sample_nonces shares pubs out"
proof -
  obtain shares pubs rng' where
    gen: "generate_with_dealer_from_secret sample_bip340 sample_rng True 5 3 2 0 = Some (shares, pubs, rng')"
    using dealer_returns [of 2 3 sample_bip340 sample_rng True 5 0] sample_bip340_pedersen by auto
  obtain coeffs where keys: "valid_keys sample_bip340 coeffs shares pubs" "max_signers pubs = 3"
    and hd: "hd coeffs = fst (normalize_keygen sample_bip340 5 (mul_generator sample_bip340 5))"
    using dealer_valid [OF sample_bip340_contract gen] by blast
  have "fst (normalize_keygen sample_bip340 5 (mul_generator sample_bip340 5)) = - 5" by code_simp
  then have vk: "verifying_key pubs = - 5"
    using keys(1) hd by (simp add: valid_keys_def secp256k1_bip340_def sample_k256_def)
  have "bt_contains_key shares 1" "bt_contains_key shares 3"
    using keys by (simp_all add: valid_keys_def)
  then have dealt: "dealt_signers sample_package shares"
    by (auto simp: dealt_signers_def sample_package_def bt_contains_key_def split: if_splits)
  have "(- 5 :: gf) \<noteq> 0" by code_simp
  then have "package_challenge sample_bip340 sample_package pubs \<noteq> None"
    using sample_bip340_nonce [OF vk] vk sample_k256.bip340_challenge_None
    by (simp add: package_challenge_def)
  then obtain c where "package_challenge sample_bip340 sample_package pubs = Some c" by blast
  from suite_contract.shares_exist [OF sample_bip340_contract keys(1) dealt sample_bip340_honest this]
  obtain out where "shares_of sample_bip340 sample_package sample_nonces shares pubs out" by blast
  with gen dealt vk show thesis by (rule that)
qed

section \<open>The properties\<close>



text \<open>
  (C17) The two verifiers of the BIP-340 ciphersuite agree: under a group key with even y, as
  the dealer makes it, \<open>verify\<close> accepts a signature exactly when it has a 64-byte form that
  \<open>bip340_verify_bytes\<close> accepts under the x-only key.
\<close>

theorem bip340_verifiers_agree:
  assumes "k256_scalars K" "\<not> has_odd_y K (verifying_key pubs)"
  shows "verify (secp256k1_bip340 K) sg msg pubs = Some True \<longleftrightarrow>
    (\<exists>bs pk. bip340_signature_to_bytes K sg = Some bs \<and> xonly_pubkey K pubs = Some pk \<and>
       bip340_verify_bytes K bs msg pk = Some True)"
  using assms by (rule k256_scalars.verify_iff_bytes)

lemma bip340_verifiers_agree_witness:
  "\<exists>bs pk. bip340_signature_to_bytes sample_k256 \<lparr> sig_R = 2, sig_z = 17663 \<rparr> = Some bs \<and>
     xonly_pubkey sample_k256 (sample_pubs\<lparr> verifying_key := 12 \<rparr>) = Some pk \<and>
     bip340_verify_bytes sample_k256 bs [1] pk = Some True"
proof -
  have "\<not> has_odd_y sample_k256 (verifying_key (sample_pubs\<lparr> verifying_key := 12 \<rparr>))"
    by code_simp
  moreover have "verify sample_bip340 \<lparr> sig_R = 2, sig_z = 17663 \<rparr> [1] (sample_pubs\<lparr> verifying_key := 12 \<rparr>) =
      Some True" by code_simp
  ultimately show ?thesis
    using bip340_verifiers_agree [OF sample_k256_scalars.k256_scalars_axioms] by blast
qed

text \<open>
  (C15) Signatures for Bitcoin: the aggregate of an honest session of at least \<open>min_signers\<close>
  dealt signers of the BIP-340 suite has a 64-byte form, which verifies on its own under the
  x-only key of the dealer.
\<close>

theorem bip340_honest_bytes_verify:
  assumes "k256_scalars K"
    and "generate_with_dealer_from_secret (secp256k1_bip340 K) G ovf sk n_max n_min rng =
      Some (shares, pubs, rng')"
    and "dealt_signers sp shares" "honest_package (secp256k1_bip340 K) N sp"
    and "unat n_min \<le> bt_len (signing_commitments sp)" "0 < bt_len (signing_commitments sp)"
    and "package_nonce (secp256k1_bip340 K) sp pubs \<noteq> 0" "verifying_key pubs \<noteq> 0"
    and "shares_of (secp256k1_bip340 K) sp N shares pubs out"
  shows "\<exists>sg bs pk. aggregate sp out = Ok sg \<and> bip340_signature_to_bytes K sg = Some bs \<and>
    length bs = 64 \<and> xonly_pubkey K pubs = Some pk \<and>
    bip340_verify_bytes K bs (message sp) pk = Some True"
proof -
  let ?C = "secp256k1_bip340 K"
  have K: "k256_contract K" using assms(1) by (rule k256_scalars.axioms)
  note C = k256_contract.bip340_suite [OF K]
  obtain coeffs where keys: "valid_keys ?C coeffs shares pubs" "min_signers pubs = n_min"
    and hd: "hd coeffs = fst (normalize_keygen ?C sk (mul_generator ?C sk))"
    using dealer_valid [OF C assms(2)] by blast
  have "verifying_key pubs = snd (normalize_keygen ?C sk (mul_generator ?C sk))"
    using suite_contract.normalize_keygen_pair [OF C, of sk] keys(1) hd
    by (cases "normalize_keygen ?C sk (mul_generator ?C sk)")
      (simp add: valid_keys_def suite_contract.mul_generator_eq [OF C])
  then have even: "\<not> has_odd_y K (verifying_key pubs)"
    by (simp only:) (rule k256_contract.normalized_key_even [OF K])
  obtain c where c: "package_challenge ?C sp pubs = Some c"
    using assms(7,8) k256_contract.bip340_challenge_None [OF K]
    by (cases "package_challenge ?C sp pubs") (auto simp: package_challenge_def)
  obtain sg where sg: "aggregate sp out = Ok sg" "verify ?C sg (message sp) pubs = Some True"
    using suite_contract.honest_round [OF C keys(1) assms(3,4) _ assms(6) c assms(9)] assms(5) keys(2)
    by auto
  then show ?thesis
    using k256_scalars.verify_iff_bytes [OF assms(1) even] k256_scalars.signature_bytes(2) [OF assms(1)]
    by blast
qed

lemma bip340_honest_bytes_verify_witness:
  "\<exists>(pubs :: gf PublicKeyPackage) bs pk. length bs = 64 \<and> xonly_pubkey sample_k256 pubs = Some pk \<and>
     bip340_verify_bytes sample_k256 bs (replicate 32 7) pk = Some True"
proof -
  obtain shares pubs rng' out where
    s: "generate_with_dealer_from_secret sample_bip340 sample_rng True 5 3 2 0 = Some (shares, pubs, rng')"
      "dealt_signers sample_package shares"
    and vk: "verifying_key pubs = - 5"
    and out: "shares_of sample_bip340 sample_package sample_nonces shares pubs out"
    by (rule sample_bip340_session)
  have "unat (2 :: Identifier) \<le> bt_len (signing_commitments sample_package)"
    "0 < bt_len (signing_commitments sample_package)" by (simp_all add: sample_package_len)
  moreover have "verifying_key pubs \<noteq> 0" unfolding vk by code_simp
  moreover have "message sample_package = replicate 32 7" by (simp add: sample_package_def)
  ultimately show ?thesis
    using bip340_honest_bytes_verify [OF sample_k256_scalars.k256_scalars_axioms s sample_bip340_honest
        _ _ sample_bip340_nonce [OF vk] _ out] by metis
qed

text \<open>
  (C25) A rogue commitment crashes honest signers: in the BIP-340 suite, whoever publishes its
  commitment last can choose the negated sums of the others' points; then the aggregate nonce
  is the identity whatever the binding factor is, and \<open>sign\<close> panics at every honest signer
  instead of returning an error.
\<close>

theorem bip340_rogue_commitment_panics:
  assumes "k256_contract K"
    and "bt_get (signing_commitments sp) (key_identifier kp) = Some sc"
    and "nonce_matches (secp256k1_bip340 K) n sc" "\<not> bt_contains_key (signing_commitments sp) m"
    and "sum_commitments (signing_commitments sp) = (D, E)"
    and "sp' = sp\<lparr> signing_commitments :=
      bt_insert m \<lparr> comm_D = - D, comm_E = - E \<rparr> (signing_commitments sp) \<rparr>"
  shows "sign (secp256k1_bip340 K) sp' n kp pubs = Panic"
proof -
  have "sum_commitments (signing_commitments sp') = (0, 0)"
    using sum_commitments_insert [OF assms(4)] assms(5,6) by simp
  then have "package_nonce (secp256k1_bip340 K) sp' pubs = 0"
    using k256_contract.mul_identity [OF assms(1)]
    by (simp add: package_nonce_def secp256k1_bip340_def)
  then have "package_challenge (secp256k1_bip340 K) sp' pubs = None"
    by (simp add: package_challenge_def k256_contract.bip340_challenge_None [OF assms(1)])
  moreover have "key_identifier kp \<noteq> m" using assms(2,4) by (auto simp: bt_contains_key_def)
  then have "bt_get (signing_commitments sp') (key_identifier kp) = Some sc"
    using assms(2,6) by simp
  ultimately show ?thesis using assms(3) by (simp add: sign_eq Let_def)
qed

lemma bip340_rogue_commitment_panics_witness:
  "sign sample_bip340 (sample_package\<lparr> signing_commitments :=
       bt_insert 2 \<lparr> comm_D = - 12, comm_E = - 18 \<rparr> (signing_commitments sample_package) \<rparr>)
     \<lparr> nonce_d = 5, nonce_e = 9 \<rparr> sample_kp sample_pubs = Panic"
proof -
  have get: "bt_get (signing_commitments sample_package) (key_identifier sample_kp) =
      Some \<lparr> comm_D = 5, comm_E = 9 \<rparr>"
    by (simp add: sample_package_def sample_kp_def)
  have "nonce_matches sample_bip340 \<lparr> nonce_d = 5, nonce_e = 9 \<rparr> \<lparr> comm_D = 5, comm_E = 9 \<rparr>"
    by (simp add: nonce_matches_def secp256k1_bip340_def default_mul_generator_def sample_k256_def)
  moreover have "\<not> bt_contains_key (signing_commitments sample_package) 2"
    by (simp add: sample_package_def bt_contains_key_def)
  moreover have "sum_commitments (signing_commitments sample_package) = (12, 18)" by code_simp
  ultimately show ?thesis
    using bip340_rogue_commitment_panics [OF sample_k256.k256_contract_axioms get _ _ _ refl] by blast
qed

end
