(* ===== verification/Command_Line.thy ===== *)
theory Command_Line
  imports Key_File Bip340_Bytes
begin

text \<open>
  The binaries src/src/bin/keygen.rs and src/src/bin/generateaddress.rs. Arguments are the list
  of \<open>std::env::args\<close>, a run returns the lines it prints. The bitcoin crate is the record
  \<open>btc_lib\<close>; decimal parsing of the standard library is modelled.
\<close>

section \<open>Arguments\<close>

definition arg :: "string list \<Rightarrow> nat \<Rightarrow> string \<Rightarrow> string" where
  "arg args n default_value = (if n < length args then args ! n else default_value)"

text \<open>\<open>str::parse\<close> for an unsigned type with values below \<open>bound\<close>: an optional plus sign, then
  at least one digit, with overflow checked at every digit.\<close>

definition digit_value :: "char \<Rightarrow> nat option" where
  "digit_value c = (let n = of_char c in if 48 \<le> n \<and> n \<le> 57 then Some (n - 48) else None)"

fun parse_digits :: "nat \<Rightarrow> nat \<Rightarrow> string \<Rightarrow> nat option" where
  "parse_digits bound acc [] = Some acc"
| "parse_digits bound acc (c # cs) =
     (case digit_value c of None \<Rightarrow> None
      | Some d \<Rightarrow> if 10 * acc + d < bound then parse_digits bound (10 * acc + d) cs else None)"

fun parse_unsigned :: "nat \<Rightarrow> string \<Rightarrow> nat option" where
  "parse_unsigned bound [] = None"
| "parse_unsigned bound (c # cs) =
     (if c = CHR ''+'' then (if cs = [] then None else parse_digits bound 0 cs)
      else parse_digits bound 0 (c # cs))"

definition parse_u16 :: "string \<Rightarrow> (boxed_error, Identifier) outcome" where
  "parse_u16 s = ok_or (map_option of_nat (parse_unsigned (2 ^ 16) s)) ParseIntError"

section \<open>keygen.rs\<close>

definition keygen_main ::
  "('s :: field, 'p :: ab_group_add, 'd) k256_lib \<Rightarrow> ('r, 's) rng_lib \<Rightarrow> 'f key_host \<Rightarrow> bool \<Rightarrow>
   string list \<Rightarrow> 'f \<Rightarrow> 'r \<Rightarrow> (boxed_error, string list) outcome \<times> 'f" where
  "keygen_main K G H ovf args fs rng =
     (let path = arg args 1 ''fafrost-key.yaml'' in
      case and_then (parse_u16 (arg args 2 ''3'')) (\<lambda>n_max.
           and_then (parse_u16 (arg args 3 ''2'')) (\<lambda>n_min. Ok (n_max, n_min))) of
        Err e \<Rightarrow> (Err e, fs)
      | Panic \<Rightarrow> (Panic, fs)
      | Ok (n_max, n_min) \<Rightarrow>
          let (res, fs) =
            generate_with_dealer_and_write_key_yaml (secp256k1_bip340 K) G H ovf path n_max n_min fs rng
          in (and_then res (\<lambda>(shares, pubkeys, stored_key, rng).
              and_then (unwrap (x_only_bytes K (verifying_key pubkeys))) (\<lambda>x.
                Ok [''wrote key file: '' @ path,
                    ''scheme: '' @ scheme stored_key,
                    ''threshold: '' @ show_id n_min @ '' of '' @ show_id n_max,
                    ''verifying key: '' @ verifying_key_hex stored_key,
                    ''x-only pubkey: '' @ hex_encode H x])), fs))"

section \<open>generateaddress.rs\<close>

datatype network = Testnet | Testnet4 | Signet | Regtest

record ('x, 'a) btc_lib =
  xonly_from_slice :: "bytes \<Rightarrow> 'x option"
  p2tr :: "'x \<Rightarrow> network \<Rightarrow> 'a"
  show_address :: "'a \<Rightarrow> string"

definition network_arg :: "string list \<Rightarrow> network" where
  "network_arg args =
     (let s = arg args 2 '''' in
      if s = ''testnet4'' then Testnet4 else if s = ''signet'' then Signet
      else if s = ''regtest'' then Regtest else Testnet)"

definition generateaddress_main ::
  "('s :: field, 'p :: ab_group_add, 'd) k256_lib \<Rightarrow> ('r, 's) rng_lib \<Rightarrow> 'f key_host \<Rightarrow>
   ('x, 'a) btc_lib \<Rightarrow> bool \<Rightarrow> string list \<Rightarrow> 'f \<Rightarrow> 'r \<Rightarrow> (boxed_error, string list) outcome" where
  "generateaddress_main K G H B ovf args fs rng =
     (let path = arg args 1 ''fafrost-key.yaml'';
          net = network_arg args
      in and_then (read_key_yaml (secp256k1_bip340 K) H path fs) (\<lambda>stored_key.
         and_then (generate_with_dealer_from_key_yaml (secp256k1_bip340 K) G H ovf path fs rng)
           (\<lambda>(shares, pubkeys, rng).
         and_then (unwrap (x_only_bytes K (verifying_key pubkeys))) (\<lambda>xonly_bytes.
         and_then (ok_or (xonly_from_slice B xonly_bytes) XOnlyError) (\<lambda>xonly.
           let address = p2tr B xonly net
           in Ok [''compressed verifying key: '' @ verifying_key_hex stored_key,
                  ''x-only public key: '' @ hex_encode H xonly_bytes,
                  ''taproot address: '' @ show_address B address])))))"

section \<open>Decimal numbers\<close>

lemma digit_value_char: "d < 10 \<Longrightarrow> digit_value (char_of (d + 48)) = Some d"
  by (simp add: digit_value_def)

lemma show_nat_less: "n < 10 \<Longrightarrow> show_nat n = [char_of (n + 48)]"
  by (simp add: show_nat.simps)

lemma show_nat_ge: "\<not> n < 10 \<Longrightarrow> show_nat n = show_nat (n div 10) @ [char_of (n mod 10 + 48)]"
  by (subst show_nat.simps) simp

lemma parse_digits_append:
  "parse_digits bound acc (xs @ ys) =
     Option.bind (parse_digits bound acc xs) (\<lambda>a. parse_digits bound a ys)"
  by (induction bound acc xs rule: parse_digits.induct) (auto split: option.splits)

lemma parse_show_digits:
  assumes "n < bound"
  shows "parse_digits bound 0 (show_nat n) = Some n"
  using assms
proof (induction n rule: show_nat.induct)
  case (1 n)
  show ?case
  proof (cases "n < 10")
    case True
    with 1 show ?thesis by (simp add: show_nat_less digit_value_char)
  next
    case False
    with 1 have "parse_digits bound 0 (show_nat (n div 10)) = Some (n div 10)" by simp
    then show ?thesis
      using 1(2) False by (simp add: show_nat_ge parse_digits_append digit_value_char)
  qed
qed

lemma show_nat_head:
  obtains d :: nat and cs where "show_nat n = char_of (d + 48) # cs" "d < 10"
proof -
  have "\<exists>(d :: nat) cs. show_nat n = char_of (d + 48) # cs \<and> d < 10"
  proof (induction n rule: show_nat.induct)
    case (1 n)
    show ?case
    proof (cases "n < 10")
      case True
      then show ?thesis by (intro exI [of _ n] exI [of _ "[]"]) (simp only: show_nat_less)
    next
      case False
      with 1 obtain d :: nat and cs where d: "show_nat (n div 10) = char_of (d + 48) # cs" "d < 10"
        by blast
      have "show_nat n = char_of (d + 48) # (cs @ [char_of (n mod 10 + 48)])"
        unfolding show_nat_ge [OF False] d(1) by simp
      with d(2) show ?thesis by blast
    qed
  qed
  with that show thesis by blast
qed

lemma parse_show:
  assumes "n < bound"
  shows "parse_unsigned bound (show_nat n) = Some n"
proof -
  obtain d :: nat and cs where d: "show_nat n = char_of (d + 48) # cs" "d < 10" by (rule show_nat_head)
  have "char_of (d + 48) \<noteq> CHR ''+''"
  proof
    assume "char_of (d + 48) = CHR ''+''"
    then have "of_char (char_of (d + 48)) = (of_char (CHR ''+'') :: nat)" by simp
    with d(2) show False by simp
  qed
  then show ?thesis using parse_show_digits [OF assms] d(1) by simp
qed

lemma parse_u16_show: "parse_u16 (show_id i) = Ok i"
  using parse_show [OF unat_Identifier_less [of i]] by (simp add: parse_u16_def show_id_def)

lemma parse_u16_no_panic: "parse_u16 s \<noteq> Panic"
  by (simp add: parse_u16_def)

end
