(* ===== verification/Sample_Host.thy ===== *)
theory Sample_Host
  imports Key_File
begin

text \<open>
  The host of the key file instantiated with concrete functions: hexadecimal digits, a simple
  serialisation of \<open>StoredKey\<close>, and a file system that maps paths to contents.
\<close>

section \<open>Hexadecimal\<close>

definition hex_digits :: string where
  "hex_digits = ''0123456789abcdef''"

fun index_of :: "'a \<Rightarrow> 'a list \<Rightarrow> nat option" where
  "index_of x [] = None"
| "index_of x (y # ys) = (if x = y then Some 0 else map_option Suc (index_of x ys))"

definition sample_hex :: "bytes \<Rightarrow> string" where
  "sample_hex bs = concat (map (\<lambda>b. [hex_digits ! (unat b div 16), hex_digits ! (unat b mod 16)]) bs)"

fun sample_unhex :: "string \<Rightarrow> bytes option" where
  "sample_unhex [] = Some []"
| "sample_unhex [c] = None"
| "sample_unhex (c # d # s) =
     (case (index_of c hex_digits, index_of d hex_digits, sample_unhex s) of
        (Some hi, Some lo, Some bs) \<Rightarrow> Some (of_nat (16 * hi + lo) # bs)
      | _ \<Rightarrow> None)"

lemma index_of_nth: "distinct xs \<Longrightarrow> n < length xs \<Longrightarrow> index_of (xs ! n) xs = Some n"
proof (induction xs arbitrary: n)
  case (Cons x xs)
  then show ?case by (cases n) (auto simp: in_set_conv_nth)
qed simp

lemma index_of_digit: "n < 16 \<Longrightarrow> index_of (hex_digits ! n) hex_digits = Some n"
  by (rule index_of_nth) (simp_all add: hex_digits_def)

lemma unat_byte_less: "unat (b :: byte) < 256"
  using unsigned_less [of b, where 'a = nat] by simp

lemma sample_unhex_hex: "sample_unhex (sample_hex bs) = Some bs"
proof (induction bs)
  case (Cons b bs)
  have "unat b div 16 < 16" using unat_byte_less [of b] by (simp add: less_mult_imp_div_less)
  moreover have "(of_nat (16 * (unat b div 16) + unat b mod 16) :: byte) = b"
    by (simp only: mult_div_mod_eq) simp
  ultimately show ?case
    using Cons by (simp add: sample_hex_def index_of_digit del: of_nat_add of_nat_mult)
qed (simp add: sample_hex_def)

section \<open>Files\<close>

text \<open>A field is its length in unary, a colon and its characters.\<close>

definition put_field :: "string \<Rightarrow> string" where
  "put_field s = replicate (length s) (CHR ''#'') @ CHR '':'' # s"

definition take_field :: "string \<Rightarrow> string \<times> string" where
  "take_field t =
     (let n = length (takeWhile (\<lambda>c. c = CHR ''#'') t); r = drop (Suc n) t in (take n r, drop n r))"

definition put_number :: "Identifier \<Rightarrow> string" where
  "put_number i = put_field (replicate (unat i) (CHR ''i''))"

lemma take_put_field: "take_field (put_field s @ t) = (s, t)"
proof -
  have "takeWhile (\<lambda>c. c = CHR ''#'') (replicate n (CHR ''#'') @ CHR '':'' # r) = replicate n (CHR ''#'')"
    for n r by (induction n) auto
  then show ?thesis by (simp add: take_field_def put_field_def Let_def)
qed

lemmas take_put = take_put_field take_put_field [where t = "[]", simplified]

definition sample_yaml :: "StoredKey \<Rightarrow> string" where
  "sample_yaml k = put_field (scheme k) @ put_number (stored_max_signers k) @
     put_number (stored_min_signers k) @ put_field (secret_key_hex k) @ put_field (verifying_key_hex k)"

definition sample_unyaml :: "string \<Rightarrow> StoredKey option" where
  "sample_unyaml t =
     (let (s, t) = take_field t; (a, t) = take_field t; (b, t) = take_field t;
          (sk, t) = take_field t; (vk, t) = take_field t
      in Some \<lparr> scheme = s, stored_max_signers = of_nat (length a),
           stored_min_signers = of_nat (length b), secret_key_hex = sk, verifying_key_hex = vk \<rparr>)"

lemma sample_unyaml_yaml: "sample_unyaml (sample_yaml k) = Some k"
  by (simp add: sample_unyaml_def sample_yaml_def put_number_def take_put)

definition sample_host :: "(string \<Rightarrow> string option) key_host" where
  "sample_host = \<lparr> hex_encode = sample_hex, hex_decode = sample_unhex,
     yaml_to_string = (\<lambda>k. Some (sample_yaml k)), yaml_from_str = sample_unyaml,
     fs_write = (\<lambda>path s fs. (True, fs(path \<mapsto> s))), fs_read_to_string = (\<lambda>path fs. fs path) \<rparr>"

interpretation sample_plain_files: key_files sample_plain sample_host
  by (intro key_files.intro sample_plain_contract sample_plain_wire.wire_contract_axioms
      key_files_axioms.intro)
    (auto simp: sample_host_def sample_unyaml_yaml sample_unhex_hex)

lemma sample_bip340_wire: "wire_contract sample_bip340"
  by unfold_locales (simp_all add: secp256k1_bip340_def sample_k256_def gf_of_bytes_bytes
      length_gf_bytes scalar32_parse_bytes length_scalar32)

interpretation sample_bip340_files: key_files sample_bip340 sample_host
  by (intro key_files.intro sample_bip340_contract sample_bip340_wire key_files_axioms.intro)
    (auto simp: sample_host_def sample_unyaml_yaml sample_unhex_hex)

end
