(* ===== verification/Key_File_Facts.thy ===== *)
theory Key_File_Facts
  imports Sample_Host
begin

text \<open>
  What holds of the key file of src/src/keygen.rs: the round trip, what is refused, and the
  group key of a dealer that is run again from the file.
\<close>

context key_files
begin

lemma file_roundtrip:
  assumes "write_key_yaml C H path sk n_max n_min fs = (Ok k, fs')" "1 \<le> n_min"
  shows "read_key_yaml C H path fs' = Ok k"
proof -
  have "validate_stored_key C H k = Ok ()"
    using written_sound [OF assms] by (auto simp: validate_Ok_iff)
  then show ?thesis by (simp add: read_written [OF assms(1)])
qed

lemma file_without_threshold:
  assumes "write_key_yaml C H path sk n_max 0 fs = (Ok k, fs')"
  shows "read_key_yaml C H path fs' = Err MinSignersZero"
  using write_key_Ok [OF assms] by (simp add: read_written [OF assms] validate_eq)

lemma write_and_deal_Ok:
  assumes "generate_with_dealer_and_write_key_yaml C G H ovf path n_max n_min fs rng =
    (Ok (shares, pubs, k, rng'), fs')"
  obtains sk rng1 where "write_key_yaml C H path sk n_max n_min fs = (Ok k, fs')"
    "generate_with_dealer_from_secret C G ovf (fst (normalize_keygen C sk (mul_generator C sk)))
       n_max n_min rng1 = Some (shares, pubs, rng')"
proof -
  obtain sk rng1 where sk: "scalar_random G rng = (sk, rng1)" by (cases "scalar_random G rng")
  obtain stored where stored: "write_key_yaml C H path sk n_max n_min fs = (stored, fs')"
    using assms by (cases "write_key_yaml C H path sk n_max n_min fs")
      (auto simp: generate_with_dealer_and_write_key_yaml_def sk)
  then obtain k' where k': "stored = Ok k'"
    using assms by (cases stored) (auto simp: generate_with_dealer_and_write_key_yaml_def sk)
  from that [of sk rng1] assms show thesis
    using write_key_Ok(6) [OF stored [unfolded k']] stored k'
    by (auto simp: generate_with_dealer_and_write_key_yaml_def sk outcome_simps)
qed

lemma regenerated:
  assumes "generate_with_dealer_and_write_key_yaml C G H ovf path n_max n_min fs rng =
    (Ok (shares, pubs, k, rng'), fs')" "1 \<le> n_min"
  shows "\<exists>shares2 pubs2 rng2. generate_with_dealer_from_key_yaml C G2 H ovf2 path fs' r2 =
      Ok (shares2, pubs2, rng2) \<and> verifying_key pubs2 = verifying_key pubs \<and>
      max_signers pubs2 = max_signers pubs \<and> min_signers pubs2 = min_signers pubs"
proof -
  obtain sk rng1 where w: "write_key_yaml C H path sk n_max n_min fs = (Ok k, fs')"
    and gen: "generate_with_dealer_from_secret C G ovf (fst (normalize_keygen C sk (mul_generator C sk)))
       n_max n_min rng1 = Some (shares, pubs, rng')"
    using assms(1) by (rule write_and_deal_Ok)
  define sk' where "sk' = fst (normalize_keygen C sk (mul_generator C sk))"
  obtain shares2 pubs2 rng2 where
    gen2: "generate_with_dealer_from_secret C G2 ovf2 sk' n_max n_min r2 = Some (shares2, pubs2, rng2)"
    using dealer_returned [OF gen] dealer_returns [of n_min n_max C G2 ovf2 sk' r2] by blast
  have "verifying_key pubs2 = verifying_key pubs \<and> max_signers pubs2 = max_signers pubs \<and>
      min_signers pubs2 = min_signers pubs"
    using dealer_valid [OF suite_contract_axioms gen] dealer_valid [OF suite_contract_axioms gen2]
    by (auto simp: valid_keys_def sk'_def)
  moreover have "generate_with_dealer_from_key_yaml C G2 H ovf2 path fs' r2 = Ok (shares2, pubs2, rng2)"
    using gen2 write_key_Ok [OF w]
    by (simp add: from_key_yaml_eq file_roundtrip [OF w assms(2)] sk'_def)
  ultimately show ?thesis by blast
qed

end

section \<open>The properties\<close>

text \<open>
  (C29) The key file survives a round trip: what \<open>write_key_yaml\<close> wrote is read back by
  \<open>read_key_yaml\<close>, past every validation, as the same \<open>StoredKey\<close>, whenever the threshold
  is at least one.
\<close>

theorem key_file_roundtrip:
  assumes "key_files C H"
    and "write_key_yaml C H path sk n_max n_min fs = (Ok k, fs')" "1 \<le> n_min"
  shows "read_key_yaml C H path fs' = Ok k"
  using assms by (rule key_files.file_roundtrip)

lemma sample_write:
  "n_min \<le> n_max \<Longrightarrow>
   \<exists>k fs'. write_key_yaml C sample_host ''k'' 5 n_max n_min (\<lambda>_. None) = (Ok k, fs')"
  by (simp add: write_key_yaml_def sample_host_def Let_def case_prod_unfold)

lemma key_file_roundtrip_witness:
  "\<exists>k fs'. read_key_yaml sample_bip340 sample_host ''k'' fs' = Ok k \<and> stored_min_signers k = 2"
proof -
  obtain k fs' where w: "write_key_yaml sample_bip340 sample_host ''k'' 5 3 2 (\<lambda>_. None) = (Ok k, fs')"
    using sample_write [of 2 3] by force
  have "(1 :: Identifier) \<le> 2" by simp
  from key_file_roundtrip [OF sample_bip340_files.key_files_axioms w this]
    sample_bip340_files.write_key_Ok(3) [OF w] show ?thesis by blast
qed

text \<open>
  (C30) A dealer run again from the key file has the same group key: after a successful
  \<open>generate_with_dealer_and_write_key_yaml\<close> with a threshold of at least one, every later
  \<open>generate_with_dealer_from_key_yaml\<close> on the file succeeds, whatever its randomness, and
  deals for the same group key, threshold and number of signers.
\<close>

theorem key_file_regenerates:
  assumes "key_files C H"
    and "generate_with_dealer_and_write_key_yaml C G H ovf path n_max n_min fs rng =
      (Ok (shares, pubs, k, rng'), fs')" "1 \<le> n_min"
  shows "\<exists>shares2 pubs2 rng2. generate_with_dealer_from_key_yaml C G2 H ovf2 path fs' r2 =
      Ok (shares2, pubs2, rng2) \<and> verifying_key pubs2 = verifying_key pubs \<and>
      max_signers pubs2 = max_signers pubs \<and> min_signers pubs2 = min_signers pubs"
  using assms by (rule key_files.regenerated)

lemma key_file_regenerates_witness:
  "\<exists>fs' shares2 (pubs2 :: gf PublicKeyPackage) rng2.
     generate_with_dealer_from_key_yaml sample_bip340 sample_rng sample_host True ''k'' fs' 77 =
       Ok (shares2, pubs2, rng2) \<and> max_signers pubs2 = 3"
proof -
  obtain k fs' where w: "write_key_yaml sample_bip340 sample_host ''k'' 5 3 2 (\<lambda>_. None) = (Ok k, fs')"
    using sample_write [of 2 3] by force
  define sk where "sk = fst (normalize_keygen sample_bip340 5 (mul_generator sample_bip340 5))"
  obtain shares pubs rng' where gen:
    "generate_with_dealer_from_secret sample_bip340 sample_rng True sk 3 2 1 = Some (shares, pubs, rng')"
    using dealer_returns [of 2 3 sample_bip340 sample_rng True sk 1]
    by (auto simp: secp256k1_bip340_def sample_k256_def secp_pedersen_generator_def gf_calc)
  have "scalar_random sample_rng 0 = (5, 1)" by (simp add: sample_rng_def)
  then have all: "generate_with_dealer_and_write_key_yaml sample_bip340 sample_rng sample_host True ''k'' 3 2
      (\<lambda>_. None) 0 = (Ok (shares, pubs, k, rng'), fs')"
    using w gen sample_bip340_files.write_key_Ok(6) [OF w]
    by (simp add: generate_with_dealer_and_write_key_yaml_def sk_def)
  have "max_signers pubs = 3"
    using dealer_valid [OF sample_bip340_contract gen] by blast
  moreover have "(1 :: Identifier) \<le> 2" by simp
  ultimately show ?thesis
    using key_file_regenerates [OF sample_bip340_files.key_files_axioms all] by metis
qed

text \<open>
  (C31) Every outcome of running the dealer from a key file: the errors are those of reading the
  file, so the second comparison of the group key never fails; and it panics exactly when a
  file that passes validation asks for 65535 signers, or when there is no second generator.
\<close>

theorem key_file_dealer_outcomes:
  assumes "key_files C H"
  shows "(generate_with_dealer_from_key_yaml C G H ovf path fs rng = Err e \<longleftrightarrow>
      read_key_yaml C H path fs = Err e) \<and>
    (generate_with_dealer_from_key_yaml C G H ovf path fs rng = Panic \<longleftrightarrow>
      (\<exists>k. read_key_yaml C H path fs = Ok k \<and>
        (stored_max_signers k = - 1 \<or> pedersen_generator C = None)))"
proof (cases "read_key_yaml C H path fs")
  case (Ok k)
  then obtain sk where sk: "sound_key C H k sk" by (rule read_key_sound)
  have "generate_with_dealer_from_secret C G ovf sk (stored_max_signers k) (stored_min_signers k) rng = None \<longleftrightarrow>
      stored_max_signers k = - 1 \<or> pedersen_generator C = None"
    using dealer_returned [of C G ovf sk "stored_max_signers k" "stored_min_signers k" rng]
      dealer_returns [of "stored_min_signers k" "stored_max_signers k" C G ovf sk rng] sk
    by (cases "generate_with_dealer_from_secret C G ovf sk (stored_max_signers k) (stored_min_signers k) rng")
      (auto simp: sound_key_def)
  then show ?thesis
    using Ok sk by (simp add: key_files.from_key_yaml_eq [OF assms] sound_key_def unwrap_Panic_iff)
qed (simp_all add: key_files.from_key_yaml_eq [OF assms] read_key_no_panic)

lemma key_file_dealer_outcomes_witness:
  "generate_with_dealer_from_key_yaml sample_bip340 sample_rng sample_host True ''k'' (\<lambda>_. None) 0 =
     Err IoError"
proof -
  have "read_key_yaml sample_bip340 sample_host ''k'' (\<lambda>_. None) = Err IoError"
    by (simp add: read_key_yaml_def sample_host_def)
  then show ?thesis
    by (rule key_file_dealer_outcomes [OF sample_bip340_files.key_files_axioms, THEN conjunct1, THEN iffD2])
qed

text \<open>
  (C32) What \<open>read_key_yaml\<close> accepts: it never panics, and it returns a key exactly when the
  file exists, parses, and names this ciphersuite, a threshold between one and the number of
  signers, and a canonical secret key to which the public key belongs.
\<close>

theorem key_file_accepted_iff:
  "read_key_yaml C H path fs \<noteq> Panic \<and>
   (read_key_yaml C H path fs = Ok k \<longleftrightarrow>
     (\<exists>yaml. fs_read_to_string H path fs = Some yaml \<and> yaml_from_str H yaml = Some k) \<and>
     scheme k = SCHEME_ID C \<and> 1 \<le> stored_min_signers k \<and>
     stored_min_signers k \<le> stored_max_signers k \<and>
     (\<exists>bytes sk. hex_decode H (secret_key_hex k) = Some bytes \<and> scalar_from_bytes C bytes = Some sk \<and>
        verifying_key_hex k =
          hex_encode H (point_bytes C (snd (normalize_keygen C sk (mul_generator C sk))))))"
  by (auto simp: read_key_yaml_def outcome_simps validate_no_panic validate_Ok_iff sound_key_def
      scalar_from_hex_def hex_lib.truncate_def vk_hex_def)

text \<open>
  (C33) A key file with a zero threshold can be written but not read: \<open>write_key_yaml\<close> asserts
  only that the threshold is at most the number of signers, and \<open>read_key_yaml\<close> refuses the
  file it wrote.
\<close>

theorem key_file_zero_threshold:
  assumes "key_files C H" "write_key_yaml C H path sk n_max 0 fs = (Ok k, fs')"
  shows "read_key_yaml C H path fs' = Err MinSignersZero"
  using assms by (rule key_files.file_without_threshold)

lemma key_file_zero_threshold_witness:
  "\<exists>fs'. read_key_yaml sample_bip340 sample_host ''k'' fs' = Err MinSignersZero"
proof -
  obtain k fs' where w: "write_key_yaml sample_bip340 sample_host ''k'' 5 3 0 (\<lambda>_. None) = (Ok k, fs')"
    using sample_write [of 0 3] by force
  from key_file_zero_threshold [OF sample_bip340_files.key_files_axioms w] show ?thesis by blast
qed



end
