(* ===== verification/Command_Line_Facts.thy ===== *)
theory Command_Line_Facts
  imports Command_Line Key_File_Facts
begin

text \<open>The two key tools of src/src/bin composed through the key file.\<close>

lemma keygen_main_Ok:
  assumes "keygen_main K G H ovf args fs rng = (Ok lines, fs')"
  obtains n_max n_min shares pubs k rng' x where
    "parse_u16 (arg args 2 ''3'') = Ok n_max" "parse_u16 (arg args 3 ''2'') = Ok n_min"
    "generate_with_dealer_and_write_key_yaml (secp256k1_bip340 K) G H ovf
       (arg args 1 ''fafrost-key.yaml'') n_max n_min fs rng = (Ok (shares, pubs, k, rng'), fs')"
    "x_only_bytes K (verifying_key pubs) = Some x"
    "lines = [''wrote key file: '' @ arg args 1 ''fafrost-key.yaml'', ''scheme: '' @ scheme k,
       ''threshold: '' @ show_id n_min @ '' of '' @ show_id n_max,
       ''verifying key: '' @ verifying_key_hex k, ''x-only pubkey: '' @ hex_encode H x]"
proof -
  obtain n_max n_min where p: "parse_u16 (arg args 2 ''3'') = Ok n_max" "parse_u16 (arg args 3 ''2'') = Ok n_min"
    using assms by (cases "parse_u16 (arg args 2 ''3'')"; cases "parse_u16 (arg args 3 ''2'')")
      (auto simp: keygen_main_def Let_def)
  obtain res where g: "generate_with_dealer_and_write_key_yaml (secp256k1_bip340 K) G H ovf
       (arg args 1 ''fafrost-key.yaml'') n_max n_min fs rng = (res, fs')"
    using assms p by (auto simp: keygen_main_def Let_def split: prod.splits)
  then show thesis
    using assms p that by (auto simp: keygen_main_def Let_def outcome_simps split: prod.splits)
qed


definition sample_btc :: "(bytes, bytes \<times> network) btc_lib" where
  "sample_btc = \<lparr> xonly_from_slice = Some, p2tr = (\<lambda>x n. (x, n)),
     show_address = (\<lambda>(x, n). ''tb1'' @ sample_hex x) \<rparr>"


end
