(* ===== verification/Session.thy ===== *)
theory Session
  imports Signing
begin

text \<open>
  A whole signing session as the test harness src/tests/common/mod.rs and the binary
  src/src/bin/spenddemo.rs run it: one loop in which every signer commits, one in which every
  signer signs. An identifier that occurs twice commits twice, and the later nonce and the
  later commitment replace the earlier ones.
\<close>

section \<open>The functions\<close>

definition commit_step ::
  "('s, 'p, 'h) ciphersuite \<Rightarrow> ('r, 's) rng_lib \<Rightarrow>
   (Identifier, 's SigningNonces) btree_map \<times> (Identifier, 'p SigningCommitments) btree_map \<times> 'r \<Rightarrow>
   Identifier \<Rightarrow>
   (Identifier, 's SigningNonces) btree_map \<times> (Identifier, 'p SigningCommitments) btree_map \<times> 'r" where
  "commit_step C G = (\<lambda>(nonces, commitments, rng) id.
     let (nonce, commitment, rng) = commit C G rng
     in (bt_insert id nonce nonces, bt_insert id commitment commitments, rng))"

definition commit_all ::
  "('s, 'p, 'h) ciphersuite \<Rightarrow> ('r, 's) rng_lib \<Rightarrow> Identifier list \<Rightarrow> 'r \<Rightarrow>
   (Identifier, 's SigningNonces) btree_map \<times> (Identifier, 'p SigningCommitments) btree_map \<times> 'r" where
  "commit_all C G signer_ids rng = foldl (commit_step C G) (bt_empty, bt_empty, rng) signer_ids"

text \<open>\<open>nonces.get(&id).unwrap()\<close> and \<open>shares.get(&id).unwrap()\<close> can panic.\<close>

definition sign_step ::
  "('s :: field, 'p :: ab_group_add, 'h) ciphersuite \<Rightarrow> 'p SigningPackage \<Rightarrow>
   (Identifier, 's SigningNonces) btree_map \<Rightarrow> 's KeyShares \<Rightarrow> 'p PublicKeyPackage \<Rightarrow>
   (Identifier, ('s, 'p) SignatureShare) btree_map \<Rightarrow> Identifier \<Rightarrow>
   (Identifier, ('s, 'p) SignatureShare) btree_map result" where
  "sign_step C sp nonces shares pubkeys out i =
     and_then (unwrap (bt_get nonces i)) (\<lambda>n.
     and_then (unwrap (bt_get shares i)) (\<lambda>kp.
     and_then (sign C sp n kp pubkeys) (\<lambda>share.
       Ok (bt_insert i share out))))"

definition sign_all ::
  "('s :: field, 'p :: ab_group_add, 'h) ciphersuite \<Rightarrow> 'p SigningPackage \<Rightarrow>
   (Identifier, 's SigningNonces) btree_map \<Rightarrow> 's KeyShares \<Rightarrow> 'p PublicKeyPackage \<Rightarrow>
   Identifier list \<Rightarrow> (Identifier, ('s, 'p) SignatureShare) btree_map result" where
  "sign_all C sp nonces shares pubkeys signer_ids =
     try_fold (sign_step C sp nonces shares pubkeys) bt_empty signer_ids"

record ('s, 'p) Session =
  ses_shares :: "'s KeyShares"
  ses_pubkeys :: "'p PublicKeyPackage"
  ses_signing_package :: "'p SigningPackage"
  ses_signature_shares :: "(Identifier, ('s, 'p) SignatureShare) btree_map"

text \<open>\<open>run\<close> unwraps the result of every \<open>sign\<close>, so an error of \<open>sign\<close> is a panic too.\<close>

definition run ::
  "('s :: field, 'p :: ab_group_add, 'h) ciphersuite \<Rightarrow> ('r, 's) rng_lib \<Rightarrow> bool \<Rightarrow> Identifier \<Rightarrow>
   Identifier \<Rightarrow> Identifier list \<Rightarrow> bytes \<Rightarrow> 'r \<Rightarrow> ('s, 'p) Session option" where
  "run C G ovf n_max n_min signer_ids msg rng =
     Option.bind (generate_with_dealer C G ovf n_max n_min rng) (\<lambda>(shares, pubkeys, rng).
       let (nonces, commitments, rng) = commit_all C G signer_ids rng;
           sp = \<lparr> message = msg, signing_commitments = commitments,
                  pkg_partial_verification_keys = partial_verification_keys pubkeys \<rparr>
       in case sign_all C sp nonces shares pubkeys signer_ids of
            Ok signature_shares \<Rightarrow>
              Some \<lparr> ses_shares = shares, ses_pubkeys = pubkeys, ses_signing_package = sp,
                     ses_signature_shares = signature_shares \<rparr>
          | _ \<Rightarrow> None)"

section \<open>The two loops\<close>

lemma commit_matches:
  "commit C G rng = (n, sc, rng') \<Longrightarrow>
   sc = \<lparr> comm_D = mul_generator C (nonce_d n), comm_E = mul_generator C (nonce_e n) \<rparr>"
  by (auto simp: commit_def Let_def split: prod.splits)

text \<open>Every commitment belongs to the nonce stored beside it.\<close>

definition commits_match ::
  "('s, 'p, 'h) ciphersuite \<Rightarrow> (Identifier, 's SigningNonces) btree_map \<Rightarrow>
   (Identifier, 'p SigningCommitments) btree_map \<Rightarrow> bool" where
  "commits_match C N cs \<longleftrightarrow> (\<forall>i. bt_get cs i =
     map_option (\<lambda>n. \<lparr> comm_D = mul_generator C (nonce_d n), comm_E = mul_generator C (nonce_e n) \<rparr>)
       (bt_get N i))"

lemma honest_package_iff: "honest_package C N sp \<longleftrightarrow> commits_match C N (signing_commitments sp)"
  by (simp add: honest_package_def commits_match_def)

lemma commit_loop:
  assumes "commits_match C N cs" "foldl (commit_step C G) (N, cs, rng) ids = (N', cs', rng')"
  shows "commits_match C N' cs' \<and>
    (\<forall>i. bt_contains_key cs' i \<longleftrightarrow> i \<in> set ids \<or> bt_contains_key cs i)"
  using assms
proof (induction ids arbitrary: N cs rng)
  case (Cons i ids)
  obtain n sc rng1 where c: "commit C G rng = (n, sc, rng1)" by (cases "commit C G rng") auto
  have "commits_match C (bt_insert i n N) (bt_insert i sc cs)"
    using Cons.prems(1) commit_matches [OF c] by (simp add: commits_match_def)
  from Cons.IH [OF this] Cons.prems(2) show ?case
    by (auto simp: commit_step_def c bt_contains_key_def)
qed simp

lemma commit_all_honest:
  assumes "commit_all C G ids rng = (N, cs, rng')"
  shows "commits_match C N cs" "bt_contains_key cs i \<longleftrightarrow> i \<in> set ids"
  using commit_loop [of C bt_empty bt_empty G rng ids N cs rng'] assms
  by (auto simp: commit_all_def commits_match_def bt_contains_key_def)

lemma sign_all_Ok:
  assumes "\<And>i. i \<in> set ids \<Longrightarrow> bt_contains_key N i \<and> bt_contains_key shares i \<and>
    sign C sp (the (bt_get N i)) (the (bt_get shares i)) pubs = Ok (f i)"
  shows "\<exists>out. sign_all C sp N shares pubs ids = Ok out \<and>
    (\<forall>i. bt_get out i = (if i \<in> set ids then Some (f i) else None))"
proof -
  have "sign_step C sp N shares pubs out i = Ok (bt_insert i (f i) out)" if "i \<in> set ids" for out i
    using assms [OF that] by (auto simp: sign_step_def bt_contains_key_def)
  then have "sign_all C sp N shares pubs ids = Ok (foldl (\<lambda>out i. bt_insert i (f i) out) bt_empty ids)"
    unfolding sign_all_def by (rule try_fold_total)
  then show ?thesis by (simp add: btm.get_foldl_insert)
qed

text \<open>The number of signers is the number of different identifiers.\<close>

lemma bt_len_card: "bt_len m = card {i. bt_contains_key m i}"
proof -
  have "set (bt_keys m) = {i. bt_contains_key m i}" by auto
  then show ?thesis using distinct_card [OF distinct_bt_keys, of m] by simp
qed

lemma bt_len_commits:
  assumes "\<And>i. bt_contains_key m i \<longleftrightarrow> i \<in> set ids"
  shows "bt_len m = card (set ids)"
  using assms by (simp add: bt_len_card)

section \<open>Both loops on dealt keys\<close>

context suite_contract
begin

lemma session_shares:
  assumes keys: "secret_shares coeffs t shares" and dealt: "\<And>i. i \<in> set ids \<Longrightarrow> bt_contains_key shares i"
    and commits: "commit_all C G ids rng = (N, cs, rng')" and sp: "signing_commitments sp = cs"
    and c: "package_challenge C sp pubs = Some c"
  obtains out where "sign_all C sp N shares pubs ids = Ok out" "shares_of C sp N shares pubs out"
    "dealt_signers sp shares" "honest_package C N sp" "bt_len (signing_commitments sp) = card (set ids)"
proof -
  note com = commit_all_honest [OF commits]
  have hon: "honest_package C N sp" using com(1) sp by (simp add: honest_package_iff)
  have len: "bt_len (signing_commitments sp) = card (set ids)"
    using com(2) sp by (simp add: bt_len_commits)
  have dealt': "dealt_signers sp shares" using dealt com(2) sp by (simp add: dealt_signers_def)
  obtain out where out: "shares_of C sp N shares pubs out"
    using dealt_shares_exist [OF keys dealt' hon c] by blast
  have "bt_contains_key N i \<and> bt_contains_key shares i \<and>
      sign C sp (the (bt_get N i)) (the (bt_get shares i)) pubs = Ok (the (bt_get out i))"
    if "i \<in> set ids" for i
  proof -
    have i: "bt_contains_key cs i" using com(2) that by simp
    then have "bt_contains_key out i" using out sp by (simp add: shares_of_def)
    then show ?thesis
      using out com(1) i dealt [OF that]
      by (auto simp: shares_of_def bt_contains_key_def commits_match_def)
  qed
  from sign_all_Ok [OF this] obtain out' where out': "sign_all C sp N shares pubs ids = Ok out'"
    "\<And>i. bt_get out' i = (if i \<in> set ids then Some (the (bt_get out i)) else None)" by blast
  have "out' = out"
  proof (rule bt_eqI)
    show "bt_get out' i = bt_get out i" for i
      using out' out com(2) sp by (auto simp: shares_of_def bt_contains_key_def)
  qed
  with that out out'(1) dealt' hon len show thesis by blast
qed

end

section \<open>The properties\<close>



end
