(* ===== verification/Spend_Demo.thy ===== *)
theory Spend_Demo
  imports Command_Line Session
begin

text \<open>
  src/src/bin/spenddemo.rs: spends a Taproot output with the key of a key file. The group key is
  tweaked for the key-spend path, the shares are negated when the tweaked key has odd y, signers
  1 and 2 sign, and the tweak's own contribution is added to the aggregate. The bitcoin crate
  (addresses, scripts, the signature hash, serialisation) is the record \<open>spend_lib\<close>; amounts
  and output numbers keep their widths.
\<close>

section \<open>The transaction\<close>

record tx_out =
  out_value :: "64 word"
  out_script :: bytes

record 't tx_in =
  previous_txid :: 't
  previous_vout :: "32 word"
  script_sig :: bytes
  tx_sequence :: "32 word"
  tx_witness :: "bytes list"

record 't transaction =
  tx_version :: nat
  tx_lock_time :: nat
  tx_input :: "'t tx_in list"
  tx_output :: "tx_out list"

record ('x, 'a, 't) spend_lib = "('x, 'a) btc_lib" +
  txid_from_str :: "string \<Rightarrow> 't option"
  show_txid :: "'t \<Rightarrow> string"
  script_pubkey :: "'a \<Rightarrow> bytes"
  op_return_script :: "bytes \<Rightarrow> bytes"
  taproot_sighash :: "'t transaction \<Rightarrow> nat \<Rightarrow> tx_out list \<Rightarrow> bytes option"
  tx_serialize :: "'t transaction \<Rightarrow> bytes"

text \<open>\<open>amount.checked_sub(fee)\<close>, and \<open>Sequence::ENABLE_RBF_NO_LOCKTIME\<close>.\<close>

definition checked_sub :: "64 word \<Rightarrow> 64 word \<Rightarrow> 64 word option" where
  "checked_sub a b = (if b \<le> a then Some (a - b) else None)"

definition ENABLE_RBF_NO_LOCKTIME :: "32 word" where
  "ENABLE_RBF_NO_LOCKTIME = 4294967293"

definition spend_tx ::
  "('x, 'a, 't) spend_lib \<Rightarrow> 't \<Rightarrow> 32 word \<Rightarrow> 'a \<Rightarrow> 64 word \<Rightarrow> 't transaction" where
  "spend_tx B txid vout funded_address send_value =
     (let marker = op_return_script B (ascii ''FaFROST demo'')
      in \<lparr> tx_version = 2, tx_lock_time = 0,
           tx_input = [\<lparr> previous_txid = txid, previous_vout = vout, script_sig = [],
             tx_sequence = ENABLE_RBF_NO_LOCKTIME, tx_witness = [] \<rparr>],
           tx_output =
             [\<lparr> out_value = send_value, out_script = script_pubkey B funded_address \<rparr>,
              \<lparr> out_value = 0, out_script = marker \<rparr>] \<rparr>)"

section \<open>The tweaked key\<close>

text \<open>The binary has its own copy of \<open>tagged_hash\<close>.\<close>

definition spend_tagged_hash :: "('s, 'p, 'd) k256_lib \<Rightarrow> bytes \<Rightarrow> bytes \<Rightarrow> bytes" where
  "spend_tagged_hash K tag data =
     (let tag_hash = sha256_digest K tag;
          h = sha256_new K;
          h = sha256_update K h tag_hash;
          h = sha256_update K h tag_hash;
          h = sha256_update K h data
      in sha256_finalize K h)"

definition taproot_tweak ::
  "('s, 'p :: ab_group_add, 'd) k256_lib \<Rightarrow> 'p \<Rightarrow> ('s \<times> 'p) option" where
  "taproot_tweak K internal_key =
     Option.bind (x_only_bytes K internal_key) (\<lambda>x.
       let tweak_hash = spend_tagged_hash K (ascii ''TapTweak'') x;
           tweak = scalar_reduce K tweak_hash;
           q_raw = internal_key + point_mul K (generator K) tweak;
           q_even = (if has_odd_y K q_raw then - q_raw else q_raw)
       in Some (tweak, q_even))"

text \<open>The keys the signers use: the shares, the public keys, and the effective tweak.\<close>

definition tweak_keys ::
  "('s :: field, 'p :: ab_group_add, 'd) k256_lib \<Rightarrow> 's KeyShares \<Rightarrow> 'p PublicKeyPackage \<Rightarrow>
   ('s KeyShares \<times> 'p PublicKeyPackage \<times> 's) option" where
  "tweak_keys K shares pubkeys =
     Option.bind (taproot_tweak K (verifying_key pubkeys)) (\<lambda>(tweak, tweaked_key).
       let signing_pubkeys = pubkeys\<lparr> verifying_key := tweaked_key \<rparr>;
           q_raw = verifying_key pubkeys + point_mul K (generator K) tweak
       in if has_odd_y K q_raw
          then Some (bt_map_values (\<lambda>share. share\<lparr> signing_share := - signing_share share \<rparr>) shares,
                     signing_pubkeys, - tweak)
          else Some (shares, signing_pubkeys, tweak))"

section \<open>The signature\<close>

definition protocol :: "'a result \<Rightarrow> (boxed_error, 'a) outcome" where
  "protocol r = (case r of Ok x \<Rightarrow> Ok x | Err e \<Rightarrow> Err (ProtocolError e) | Panic \<Rightarrow> Panic)"

definition spend_sign ::
  "('s :: field, 'p :: ab_group_add, 'd) k256_lib \<Rightarrow> ('r, 's) rng_lib \<Rightarrow> 's KeyShares \<Rightarrow>
   'p PublicKeyPackage \<Rightarrow> bytes \<Rightarrow> 'r \<Rightarrow> (boxed_error, bytes) outcome" where
  "spend_sign K G shares pubkeys msg rng =
     (let C = secp256k1_bip340 K; signer_ids = [1, 2] in
      and_then (unwrap (tweak_keys K shares pubkeys)) (\<lambda>(signing_shares, signing_pubkeys, tweak_eff).
      let (nonces, commitments, rng) = commit_all C G signer_ids rng;
          signing_package = \<lparr> message = msg, signing_commitments = commitments,
            pkg_partial_verification_keys = partial_verification_keys signing_pubkeys \<rparr>
      in and_then (protocol (sign_all C signing_package nonces signing_shares signing_pubkeys signer_ids))
           (\<lambda>signature_shares.
         and_then (protocol (aggregate signing_package signature_shares)) (\<lambda>sig.
         and_then (unwrap (x_only_bytes K (sig_R sig))) (\<lambda>r_x.
         and_then (unwrap (x_only_bytes K (verifying_key signing_pubkeys))) (\<lambda>p_x.
           let c = bip340_challenge_scalar K r_x p_x msg;
               sig = sig\<lparr> sig_z := sig_z sig + c * tweak_eff \<rparr>
           in and_then (unwrap (bip340_signature_to_bytes K sig)) (\<lambda>sig_bytes.
              and_then (unwrap (bip340_verify_bytes K sig_bytes msg p_x)) (\<lambda>ok.
                if ok then Ok sig_bytes else Panic))))))))"

definition spend_main ::
  "('s :: field, 'p :: ab_group_add, 'd) k256_lib \<Rightarrow> ('r, 's) rng_lib \<Rightarrow> 'f key_host \<Rightarrow>
   ('x, 'a, 't) spend_lib \<Rightarrow> bool \<Rightarrow> string list \<Rightarrow> 'f \<Rightarrow> 'r \<Rightarrow> (boxed_error, string list) outcome" where
  "spend_main K G H B ovf args fs rng =
     (let key_file = arg args 1 ''fafrost-key.yaml'' in
      and_then (ok_or (txid_from_str B (arg args 2
         ''19649d146d80356696246d527956787fc0eb6d6099a62249d1440344cbf83326'')) TxidError) (\<lambda>txid.
      and_then (ok_or (parse_unsigned (2 ^ 32) (arg args 3 ''0'')) ParseIntError) (\<lambda>vout.
      and_then (ok_or (parse_unsigned (2 ^ 64) (arg args 4 ''143208'')) ParseIntError) (\<lambda>amount.
      and_then (ok_or (parse_unsigned (2 ^ 64) (arg args 5 ''800'')) ParseIntError) (\<lambda>fee.
      and_then (generate_with_dealer_from_key_yaml (secp256k1_bip340 K) G H ovf key_file fs rng)
        (\<lambda>(shares, pubkeys, rng).
      and_then (unwrap (x_only_bytes K (verifying_key pubkeys))) (\<lambda>internal_xonly.
      and_then (ok_or (xonly_from_slice B internal_xonly) XOnlyError) (\<lambda>internal.
      let funded_address = p2tr B internal Testnet;
          prev_txout = \<lparr> out_value = of_nat amount, out_script = script_pubkey B funded_address \<rparr>
      in and_then (ok_or (checked_sub (of_nat amount) (of_nat fee)) FeeExceedsAmount) (\<lambda>send_value.
      let tx = spend_tx B txid (of_nat vout) funded_address send_value
      in and_then (ok_or (taproot_sighash B tx 0 [prev_txout]) SighashError) (\<lambda>msg.
         and_then (spend_sign K G shares pubkeys msg rng) (\<lambda>sig_bytes.
           let input0 = tx_input tx ! 0;
               tx = tx\<lparr> tx_input := (tx_input tx)[0 := input0\<lparr> tx_witness := tx_witness input0 @ [sig_bytes] \<rparr>] \<rparr>
           in Ok [''funded address: '' @ show_address B funded_address,
                  ''input txid: '' @ show_txid B txid,
                  ''input vout: '' @ show_nat vout,
                  ''input amount: '' @ show_nat amount @ '' sats'',
                  ''fee: '' @ show_nat fee @ '' sats'',
                  ''raw tx:'',
                  hex_encode H (tx_serialize B tx)])))))))))))"

end
