(* ===== verification/Spend_Facts.thy ===== *)
theory Spend_Facts
  imports Spend_Demo Key_File_Facts
begin

text \<open>
  What src/src/bin/spenddemo.rs guarantees: signing with the tweaked keys gives a signature under
  the tweaked key, so the final assertion holds, and what is printed is a transaction that
  carries a valid signature and does not create money.
\<close>

section \<open>Negated shares\<close>

lemma poly_at_neg: "poly_at (map uminus cs) x = - poly_at (cs :: 's :: field list) x"
  by (simp add: poly_at_def sum_negf)

lemma bt_contains_map_values [simp]: "bt_contains_key (bt_map_values f m) i = bt_contains_key m i"
  by (simp add: bt_contains_key_def)

lemma pair_key_negate:
  "pair_key (bt_map_values (\<lambda>kp. kp\<lparr> signing_share := f kp \<rparr>) S) i j = pair_key S i j"
  by (cases "bt_get S i") (simp_all add: pair_key_def)

lemma secret_shares_neg:
  assumes "secret_shares coeffs t shares"
  shows "secret_shares (map uminus coeffs) t
    (bt_map_values (\<lambda>kp. kp\<lparr> signing_share := - signing_share kp \<rparr>) shares)"
  using assms unfolding secret_shares_def pair_key_negate bt_contains_map_values
  by (auto simp: poly_at_neg)

section \<open>The tweaked keys\<close>

context k256_contract
begin

lemma tweak_keys_Some:
  assumes "secret_shares coeffs t shares" "verifying_key pubs = point_mul K (generator K) (hd coeffs)"
    and "tweak_keys K shares pubs = Some (shares', pubs', te)"
  obtains coeffs' where "secret_shares coeffs' t shares'" "\<not> has_odd_y K (verifying_key pubs')"
    "verifying_key pubs' = point_mul K (generator K) (hd coeffs' + te)"
    "\<forall>i. bt_contains_key shares' i = bt_contains_key shares i"
proof -
  have ne: "coeffs \<noteq> []" using assms(1) by (simp add: secret_shares_def)
  obtain tw x where tw: "taproot_tweak K (verifying_key pubs) =
      Some (tw, if has_odd_y K (verifying_key pubs + point_mul K (generator K) tw)
                then - (verifying_key pubs + point_mul K (generator K) tw)
                else verifying_key pubs + point_mul K (generator K) tw)"
    using assms(3) by (auto simp: tweak_keys_def taproot_tweak_def Let_def bind_eq_Some_conv)
  have q: "verifying_key pubs + point_mul K (generator K) tw = point_mul K (generator K) (hd coeffs + tw)"
    by (simp add: assms(2) gen_add)
  show thesis
  proof (cases "has_odd_y K (point_mul K (generator K) (hd coeffs + tw))")
    case True
    then have "shares' = bt_map_values (\<lambda>kp. kp\<lparr> signing_share := - signing_share kp \<rparr>) shares"
      "te = - tw" "verifying_key pubs' = - point_mul K (generator K) (hd coeffs + tw)"
      using assms(3) by (auto simp: tweak_keys_def tw q)
    with that [of "map uminus coeffs"] secret_shares_neg [OF assms(1)] ne even_y_neg [OF True]
    show thesis by (simp add: gen_calc hd_map)
  next
    case False
    then have "shares' = shares" "te = tw" "verifying_key pubs' = point_mul K (generator K) (hd coeffs + tw)"
      using assms(3) by (auto simp: tweak_keys_def tw q)
    with that [of coeffs] assms(1) False show thesis by simp
  qed
qed

lemma taproot_tweak_None: "taproot_tweak K P = None \<longleftrightarrow> P = 0"
  by (auto simp: taproot_tweak_def Let_def x_only_None_iff bind_eq_None_conv)

end

section \<open>Signing under the tweaked key\<close>

context k256_scalars
begin

lemma spend_signs:
  assumes keys: "secret_shares coeffs t shares" "t \<le> 2"
    and vk: "verifying_key pubs = point_mul K (generator K) (hd coeffs)"
    and dealt: "bt_contains_key shares 1" "bt_contains_key shares 2"
    and tw: "tweak_keys K shares pubs = Some (shares', pubs', te)" "verifying_key pubs' \<noteq> 0"
    and com: "commit_all (secp256k1_bip340 K) G [1, 2] rng = (N, cs, rng')"
    and sp: "sp = \<lparr> message = msg, signing_commitments = cs,
      pkg_partial_verification_keys = partial_verification_keys pubs' \<rparr>"
    and R: "package_nonce (secp256k1_bip340 K) sp pubs' \<noteq> 0"
  shows "\<exists>bs pk. spend_sign K G shares pubs msg rng = Ok bs \<and> length bs = 64 \<and>
    xonly_pubkey K pubs' = Some pk \<and> bip340_verify_bytes K bs msg pk = Some True"
proof -
  let ?C = "secp256k1_bip340 K"
  obtain coeffs' where keys': "secret_shares coeffs' t shares'" and even: "\<not> has_odd_y K (verifying_key pubs')"
    and vk': "verifying_key pubs' = point_mul K (generator K) (hd coeffs' + te)"
    and dom: "\<forall>i. bt_contains_key shares' i = bt_contains_key shares i"
    using tweak_keys_Some [OF keys(1) vk tw(1)] .
  obtain c where c: "package_challenge ?C sp pubs' = Some c"
    using R tw(2) bip340_challenge_None by (cases "package_challenge ?C sp pubs'")
      (auto simp: package_challenge_def)
  have dealt': "bt_contains_key shares' i" if "i \<in> set [1, 2]" for i
    using that dealt dom by auto
  have cs: "signing_commitments sp = cs" "message sp = msg" by (simp_all add: sp)
  from bip.session_shares [OF keys' dealt' com cs(1) c]
  obtain out where out: "sign_all ?C sp N shares' pubs' [1, 2] = Ok out" "shares_of ?C sp N shares' pubs' out"
    and hon: "dealt_signers sp shares'" "honest_package ?C N sp"
      "bt_len (signing_commitments sp) = card (set [1, 2 :: Identifier])" .
  have two: "bt_len (signing_commitments sp) = 2" using hon(3) by (simp add: card_insert_if)
  have "t \<le> bt_len (signing_commitments sp)" "0 < bt_len (signing_commitments sp)"
    using keys(2) two by simp_all
  from bip.dealt_aggregate [OF keys' hon(1,2) this c out(2)]
  obtain r where r: "package_nonce ?C sp pubs' = point_mul ?C (generator ?C) r"
    and agg: "aggregate sp out = Ok \<lparr> sig_R = fst (normalize_share_r ?C (package_nonce ?C sp pubs') 1),
      sig_z = c * hd coeffs' + share_sign ?C (package_nonce ?C sp pubs') * r \<rparr>" by blast
  define R' where "R' = fst (normalize_share_r ?C (package_nonce ?C sp pubs') 1)"
  define z where "z = c * hd coeffs' + share_sign ?C (package_nonce ?C sp pubs') * r"
  have chal: "challenge ?C (verifying_key pubs') R' msg = Some c"
    using c bip.challenge_normalized cs(2) by (simp add: package_challenge_def R'_def)
  then obtain r_x p_x where x: "x_only_bytes K R' = Some r_x" "x_only_bytes K (verifying_key pubs') = Some p_x"
    "c = bip340_challenge_scalar K r_x p_x msg"
    by (auto simp: secp256k1_bip340_def bip340_challenge_def bind_eq_Some_conv)
  define sg where "sg = \<lparr> sig_R = R', sig_z = z + c * te \<rparr>"
  have "point_mul ?C (generator ?C) (z + c * te) = R' + point_mul ?C (verifying_key pubs') c"
  proof -
    have "R' = point_mul K (generator K) (share_sign ?C (package_nonce ?C sp pubs') * r)"
      using bip.normalize_share_r_point [OF r] by (simp add: R'_def secp256k1_bip340_def)
    then show ?thesis
      by (simp add: vk' z_def secp256k1_bip340_def gen_calc algebra_simps)
  qed
  then have "verify ?C sg msg pubs' = Some True"
    using bip.accept_normalized chal by (simp add: verify_def sg_def R'_def bip.mul_generator_eq)
  then obtain bs where bs: "bip340_signature_to_bytes K sg = Some bs"
    "bip340_verify_bytes K bs msg p_x = Some True"
    using verify_iff_bytes [OF even] x(2) by (auto simp: xonly_pubkey_def)
  have agg': "aggregate sp out = Ok \<lparr> sig_R = R', sig_z = z \<rparr>" using agg by (simp add: R'_def z_def)
  have "spend_sign K G shares pubs msg rng = Ok bs"
    using tw(1) com out(1) agg' x bs
    by (simp add: spend_sign_def Let_def sp [symmetric] protocol_def sg_def)
  then show ?thesis using bs x(2) signature_bytes(2) [OF bs(1)] by (simp add: xonly_pubkey_def)
qed

end

section \<open>A run that prints\<close>

text \<open>What a transaction printed by \<open>spend_main\<close> satisfies.\<close>

definition spends ::
  "('s :: field, 'p :: ab_group_add, 'd) k256_lib \<Rightarrow> ('x, 'a, 't) spend_lib \<Rightarrow> bytes \<Rightarrow> tx_out \<Rightarrow>
   nat \<Rightarrow> 't transaction \<Rightarrow> bool" where
  "spends K B pk prev fee tx \<longleftrightarrow>
     (\<exists>inp sig msg o1 o2. tx_input tx = [inp] \<and> tx_witness inp = [sig] \<and> tx_output tx = [o1, o2] \<and>
        taproot_sighash B (tx\<lparr> tx_input := [inp\<lparr> tx_witness := [] \<rparr>] \<rparr>) 0 [prev] = Some msg \<and>
        bip340_verify_bytes K sig msg pk = Some True \<and> out_script o1 = out_script prev \<and>
        unat (out_value o1) + unat (out_value o2) + fee = unat (out_value prev))"

lemma checked_sub_Some:
  assumes "checked_sub a b = Some c"
  shows "unat c + unat b = unat a"
  using assms by (auto simp: checked_sub_def unat_sub word_le_nat_alt split: if_splits)

lemma spend_sign_Ok:
  assumes "spend_sign K G shares pubs msg rng = Ok sig"
  shows "\<exists>shares' pubs' te pk. tweak_keys K shares pubs = Some (shares', pubs', te) \<and>
    xonly_pubkey K pubs' = Some pk \<and> bip340_verify_bytes K sig msg pk = Some True"
  using assms
  by (auto simp: spend_sign_def Let_def outcome_simps xonly_pubkey_def case_prod_unfold split: if_splits)

lemma parse_digits_less:
  "parse_digits bound acc s = Some n \<Longrightarrow> acc < bound \<Longrightarrow> n < bound"
  by (induction bound acc s rule: parse_digits.induct) (auto split: option.splits if_splits)

lemma parse_unsigned_less: "parse_unsigned bound s = Some n \<Longrightarrow> 0 < bound \<Longrightarrow> n < bound"
  by (cases "(bound, s)" rule: parse_unsigned.cases)
    (auto split: if_splits intro: parse_digits_less simp del: parse_digits.simps)

section \<open>A sample run\<close>

text \<open>A generator that always gives the same scalar: the tweaked key of 5 then has odd y.\<close>

definition const_rng :: "(unit, gf) rng_lib" where
  "const_rng = \<lparr> scalar_random = (\<lambda>_. (5, ())), fill_bytes = (\<lambda>n _. (replicate n 8, ())) \<rparr>"

definition const_commitments :: "(Identifier, gf SigningCommitments) btree_map" where
  "const_commitments = bt_of_list [1, 2] (\<lambda>_. \<lparr> comm_D = 5, comm_E = 5 \<rparr>)"

lemma const_commit_all:
  obtains N where "commit_all sample_bip340 const_rng [1, 2] rng = (N, const_commitments, ())"
  by (simp add: commit_all_def commit_step_def commit_def const_rng_def Let_def const_commitments_def
      bt_of_list_def secp256k1_bip340_def default_mul_generator_def sample_k256_def)

lemma const_package_nonce:
  assumes "verifying_key pubs = - 4521"
  shows "package_nonce sample_bip340 \<lparr> message = replicate 32 7, signing_commitments = const_commitments,
    pkg_partial_verification_keys = P \<rparr> pubs \<noteq> 0"
proof -
  have "fst (sum_commitments const_commitments) + point_mul sample_bip340 (snd (sum_commitments const_commitments))
      (binding_factor sample_bip340 (- 4521) (encode_signer_set (bt_keys const_commitments)) (replicate 32 7)
        (encode_commitments sample_bip340 const_commitments)) \<noteq> 0"
    by code_simp
  then show ?thesis by (simp add: package_nonce_def package_binding_def case_prod_unfold Let_def assms)
qed

lemma sample_tweak: "taproot_tweak sample_k256 (- 5) = Some (4526, - 4521)"
  "has_odd_y sample_k256 (- 5 + point_mul sample_k256 (generator sample_k256) 4526)"
  by code_simp+

lemma sample_spend_keys:
  obtains shares pubs shares' pubs' te N where
    "generate_with_dealer_from_secret sample_bip340 const_rng True (- 5) 3 2 () = Some (shares, pubs, ())"
    "tweak_keys sample_k256 shares pubs = Some (shares', pubs', te)" "verifying_key pubs' = - 4521"
    "verifying_key pubs' \<noteq> 0" "verifying_key pubs \<noteq> 0"
    "commit_all sample_bip340 const_rng [1, 2] () = (N, const_commitments, ())"
proof -
  obtain shares pubs where gen:
    "generate_with_dealer_from_secret sample_bip340 const_rng True (- 5) 3 2 () = Some (shares, pubs, ())"
    using dealer_returns [of 2 3 sample_bip340 const_rng True "- 5" "()"] sample_bip340_pedersen by auto
  have "normalize_keygen sample_bip340 (- 5) (mul_generator sample_bip340 (- 5)) = (- 5, - 5)"
    by code_simp
  then have vk: "verifying_key pubs = - 5"
    using dealer_valid [OF sample_bip340_contract gen]
    by (auto simp: valid_keys_def secp256k1_bip340_def sample_k256_def)
  then obtain shares' pubs' te where tw: "tweak_keys sample_k256 shares pubs = Some (shares', pubs', te)"
    "verifying_key pubs' = - 4521"
    using sample_tweak by (simp add: tweak_keys_def Let_def split: if_splits)
  have nz: "(- 4521 :: gf) \<noteq> 0" "(- 5 :: gf) \<noteq> 0" by code_simp+
  obtain N where "commit_all sample_bip340 const_rng [1, 2] () = (N, const_commitments, ())"
    by (rule const_commit_all)
  with that gen tw nz vk show thesis by simp
qed

definition sample_spend_lib :: "(bytes, bytes \<times> network, string) spend_lib" where
  "sample_spend_lib = \<lparr> xonly_from_slice = Some, p2tr = (\<lambda>x n. (x, n)),
     show_address = (\<lambda>(x, n). ''tb1'' @ sample_hex x),
     txid_from_str = Some, show_txid = (\<lambda>t. t), script_pubkey = (\<lambda>(x, n). 81 # x),
     op_return_script = (\<lambda>b. 106 # b), taproot_sighash = (\<lambda>tx i prevs. Some (replicate 32 7)),
     tx_serialize = (\<lambda>tx. concat (map (\<lambda>i. concat (tx_witness i)) (tx_input tx))) \<rparr>"

section \<open>The properties\<close>

text \<open>
  (C27) Taproot key-spend signing works: with the keys the dealer made for a threshold of at most
  two of at least two signers, signers 1 and 2 sign under the tweaked key with their (negated)
  shares, and with the tweak added the 64 bytes verify under the tweaked x-only key, so the
  assertion of the binary holds; provided neither the tweaked key nor the aggregate nonce is
  the identity.
\<close>

theorem spend_signature_valid:
  assumes "k256_scalars K"
    and "generate_with_dealer_from_secret (secp256k1_bip340 K) G0 ovf sk n_max n_min rng0 =
      Some (shares, pubs, rng)"
    and "n_min \<le> 2" "2 \<le> n_max"
    and "tweak_keys K shares pubs = Some (shares', pubs', te)" "verifying_key pubs' \<noteq> 0"
    and "commit_all (secp256k1_bip340 K) G [1, 2] rng = (N, cs, rng')"
    and "package_nonce (secp256k1_bip340 K) \<lparr> message = msg, signing_commitments = cs,
      pkg_partial_verification_keys = partial_verification_keys pubs' \<rparr> pubs' \<noteq> 0"
  shows "\<exists>bs pk. spend_sign K G shares pubs msg rng = Ok bs \<and> length bs = 64 \<and>
    xonly_pubkey K pubs' = Some pk \<and> bip340_verify_bytes K bs msg pk = Some True"
proof -
  have K: "k256_contract K" using assms(1) by (rule k256_scalars.axioms)
  obtain coeffs where keys: "valid_keys (secp256k1_bip340 K) coeffs shares pubs"
    and n: "max_signers pubs = n_max" "min_signers pubs = n_min"
    using dealer_valid [OF k256_contract.bip340_suite [OF K] assms(2)] by blast
  have vk: "verifying_key pubs = point_mul K (generator K) (hd coeffs)"
    using keys by (simp add: valid_keys_def secp256k1_bip340_def)
  have "unat (min_signers pubs) \<le> 2" using assms(3) n by (simp add: word_le_nat_alt)
  moreover have "1 \<le> n_max" using assms(4) by (rule order.trans [rotated]) simp
  then have "bt_contains_key shares 1" "bt_contains_key shares 2"
    using keys n assms(4) by (simp_all add: valid_keys_def)
  ultimately show ?thesis
    using k256_scalars.spend_signs [OF assms(1) valid_keys_secret [OF keys] _ vk _ _ assms(5,6,7) refl assms(8)]
    by blast
qed

lemma spend_signature_valid_witness:
  "\<exists>shares (pubs :: gf PublicKeyPackage) bs. spend_sign sample_k256 const_rng shares pubs (replicate 32 7) () = Ok bs \<and> length bs = 64"
proof -
  obtain shares pubs shares' pubs' te N where s:
    "generate_with_dealer_from_secret sample_bip340 const_rng True (- 5) 3 2 () = Some (shares, pubs, ())"
    "tweak_keys sample_k256 shares pubs = Some (shares', pubs', te)" "verifying_key pubs' = - 4521"
    "verifying_key pubs' \<noteq> 0" "commit_all sample_bip340 const_rng [1, 2] () = (N, const_commitments, ())"
    by (rule sample_spend_keys)
  have n: "(2 :: Identifier) \<le> 2" "(2 :: Identifier) \<le> 3" by simp_all
  from spend_signature_valid [OF sample_k256_scalars.k256_scalars_axioms s(1) n s(2,4,5)
      const_package_nonce [OF s(3)]] show ?thesis by blast
qed

text \<open>
  (C28) Nothing else is printed: whenever the binary ends without an error, its last line is the
  serialisation of a transaction with one input, whose single witness item verifies for the
  transaction's own signature hash under the tweaked key, and whose outputs and fee add up to
  the spent amount, with no overflow.
\<close>

theorem spend_prints_valid_transaction:
  assumes "spend_main K G H B ovf args fs rng = Ok lines"
  shows "\<exists>shares pubs rng' shares' pubs' te pk prev fee tx.
    generate_with_dealer_from_key_yaml (secp256k1_bip340 K) G H ovf
      (arg args 1 ''fafrost-key.yaml'') fs rng = Ok (shares, pubs, rng') \<and>
    tweak_keys K shares pubs = Some (shares', pubs', te) \<and> xonly_pubkey K pubs' = Some pk \<and>
    parse_unsigned (2 ^ 64) (arg args 5 ''800'') = Some fee \<and>
    spends K B pk prev fee tx \<and> last lines = hex_encode H (tx_serialize B tx)"
proof -
  obtain txid vout amount fee shares pubs rng' internal send_value msg sig prev tx0 tx where
    key: "generate_with_dealer_from_key_yaml (secp256k1_bip340 K) G H ovf
      (arg args 1 ''fafrost-key.yaml'') fs rng = Ok (shares, pubs, rng')"
    and fee: "parse_unsigned (2 ^ 64) (arg args 5 ''800'') = Some fee"
    and prev: "prev = \<lparr> out_value = of_nat amount, out_script = script_pubkey B (p2tr B internal Testnet) \<rparr>"
    and sub: "checked_sub (of_nat amount) (of_nat fee) = Some send_value"
    and tx0: "tx0 = spend_tx B txid (of_nat vout) (p2tr B internal Testnet) send_value"
    and msg: "taproot_sighash B tx0 0 [prev] = Some msg"
    and sig: "spend_sign K G shares pubs msg rng' = Ok sig"
    and tx: "tx = tx0\<lparr> tx_input := (tx_input tx0)[0 := (tx_input tx0 ! 0)
       \<lparr> tx_witness := tx_witness (tx_input tx0 ! 0) @ [sig] \<rparr>] \<rparr>"
    and lines: "last lines = hex_encode H (tx_serialize B tx)"
    using assms by (auto simp: spend_main_def Let_def outcome_simps)
  obtain shares' pubs' te pk where t: "tweak_keys K shares pubs = Some (shares', pubs', te)"
    "xonly_pubkey K pubs' = Some pk" "bip340_verify_bytes K sig msg pk = Some True"
    using spend_sign_Ok [OF sig] by blast
  have "fee < 2 ^ 64" using fee by (rule parse_unsigned_less) simp
  then have "unat (of_nat fee :: 64 word) = fee" by (simp add: unat_of_nat)
  then have "spends K B pk prev fee tx"
    using msg t(3) checked_sub_Some [OF sub]
    by (simp add: spends_def tx tx0 spend_tx_def Let_def prev)
  with key t(1,2) fee lines show ?thesis by blast
qed

lemma sample_spend_sign:
  assumes "generate_with_dealer_from_secret sample_bip340 const_rng True (- 5) 3 2 () = Some (shares, pubs, ())"
    and "tweak_keys sample_k256 shares pubs = Some (shares', pubs', te)" "verifying_key pubs' = - 4521"
    and "commit_all sample_bip340 const_rng [1, 2] () = (N, const_commitments, ())"
  shows "\<exists>bs. spend_sign sample_k256 const_rng shares pubs (replicate 32 7) () = Ok bs"
proof -
  obtain coeffs where keys: "valid_keys sample_bip340 coeffs shares pubs"
    and n: "max_signers pubs = 3" "min_signers pubs = 2"
    using dealer_valid [OF sample_bip340_contract assms(1)] by blast
  have "verifying_key pubs = point_mul sample_k256 (generator sample_k256) (hd coeffs)"
    using keys by (simp add: valid_keys_def secp256k1_bip340_def)
  moreover have "bt_contains_key shares 1" "bt_contains_key shares 2" "unat (min_signers pubs) \<le> 2"
    using keys n by (simp_all add: valid_keys_def)
  moreover have "verifying_key pubs' \<noteq> 0" unfolding assms(3) by code_simp
  ultimately show ?thesis
    using sample_k256_scalars.spend_signs [OF valid_keys_secret [OF keys] _ _ _ _ assms(2) _ assms(4) refl
        const_package_nonce [OF assms(3)]] by blast
qed

lemma spend_prints_valid_transaction_witness:
  "\<exists>pk prev tx. spends sample_k256 sample_spend_lib pk prev 800 tx"
proof -
  obtain shares pubs shares' pubs' te N where
    gen: "generate_with_dealer_from_secret sample_bip340 const_rng True (- 5) 3 2 () = Some (shares, pubs, ())"
    and tw: "tweak_keys sample_k256 shares pubs = Some (shares', pubs', te)" "verifying_key pubs' = - 4521"
    and vk: "verifying_key pubs \<noteq> 0"
    and com: "commit_all sample_bip340 const_rng [1, 2] () = (N, const_commitments, ())"
    by (rule sample_spend_keys)
  obtain bs where bs: "spend_sign sample_k256 const_rng shares pubs (replicate 32 7) () = Ok bs"
    using sample_spend_sign [OF gen tw com] by blast
  obtain k fs' where w: "write_key_yaml sample_bip340 sample_host ''fafrost-key.yaml'' 5 3 2 (\<lambda>_. None) = (Ok k, fs')"
    by (simp add: write_key_yaml_def sample_host_def Let_def case_prod_unfold)
  have "normalize_keygen sample_bip340 5 (mul_generator sample_bip340 5) = (- 5, - 5)" by code_simp
  then have key: "generate_with_dealer_from_key_yaml sample_bip340 const_rng sample_host True ''fafrost-key.yaml'' fs' () =
      Ok (shares, pubs, ())"
    using sample_bip340_files.file_roundtrip [OF w] sample_bip340_files.write_key_Ok [OF w] gen
    by (simp add: sample_bip340_files.from_key_yaml_eq)
  obtain x where x: "x_only_bytes sample_k256 (verifying_key pubs) = Some x"
    using sample_k256.x_only_None_iff [of "verifying_key pubs"] vk by auto
  have sub: "checked_sub 143208 800 = Some 142408" by (simp add: checked_sub_def)
  obtain lines where run: "spend_main sample_k256 const_rng sample_host sample_spend_lib True [''spenddemo''] fs' () =
      Ok lines"
    using key x bs sub by (simp add: spend_main_def arg_def digit_value_def sample_spend_lib_def Let_def)
  have "parse_unsigned (2 ^ 64) (arg [''spenddemo''] 5 ''800'') = Some 800"
    by (simp add: arg_def digit_value_def)
  with spend_prints_valid_transaction [OF run] show ?thesis by (metis option.inject)
qed

end
