(* ===== verification/Spec2Isabelle.thy ===== *)
theory Spec2Isabelle
  imports Abort_Limits Abort_Torsion Schnorr Ed25519_Bytes Encodings Command_Line_Facts Spend_Facts
begin

text \<open>
  A verification library for FaFROST, a Rust crate for threshold Schnorr signatures with
  identifiable abort over secp256k1 (plain and BIP-340) and Ed25519.

  \<^bold>\<open>The program.\<close> A dealer shares a secret key with a polynomial, commits to every share, and
  gives every pair of signers a common 32-byte key (src/src/keygen.rs). In the first signing
  round a signer publishes two nonce points (\<open>commit\<close>); in the second it answers a signing
  package with a share, its Lagrange-weighted key share plus its nonces plus a blinding value per
  peer, derived from the common keys with opposite signs on the two sides, so that the blinding
  cancels in the sum (\<open>sign\<close>, \<open>aggregate\<close> in src/src/sign.rs; \<open>verify\<close> in src/src/verify.rs). When the
  aggregate does not verify, each signer commits to its blinding values and proves in zero
  knowledge that its share is well formed (\<open>ia1\<close>), opens the common keys it disagrees about (\<open>ia2\<close>), and
  everybody computes the set of cheaters (\<open>decide\<close>; src/src/ia.rs). All of it is generic in the
  trait \<open>Ciphersuite\<close> (src/src/ciphersuite/mod.rs); src/src/wire.rs encodes the messages and
  src/src/utils.rs the strings that are hashed. Three binaries use the crate: two key tools and a
  tool that spends a Taproot output.

  \<^bold>\<open>Where the code is modelled.\<close>
  \<^item> \<open>Prelude\<close>: bytes, the 16-bit \<open>Identifier\<close>, \<open>outcome\<close> (\<open>Ok\<close>, \<open>Err\<close> or \<open>Panic\<close>, the three ways a
    call ends), the combinators of \<open>?\<close> and of loops that stop early. \<open>Protocol_Error\<close>:
    src/src/error.rs with the texts of \<open>Display\<close>. \<open>BTree_Map\<close>: \<open>std::collections::BTreeMap\<close> as a sorted
    association list; its iteration order is what the encodings depend on.
  \<^item> \<open>Ciphersuite_Trait\<close>: the traits \<open>ScalarHasher\<close> and \<open>Ciphersuite\<close> as records of operations, with
    the provided methods as the \<open>default_\<close> definitions. \<open>Secp256k1_Suite\<close> and \<open>Bip340_Bytes\<close>:
    src/src/ciphersuite/secp256k1.rs and bip340.rs. \<open>Ed25519_Suite\<close> and \<open>Ed25519_Bytes\<close>:
    src/src/ciphersuite/ed25519.rs.
  \<^item> \<open>Protocol_Utils\<close> (src/src/utils.rs) over the algebra of \<open>Interpolation\<close>; \<open>Signing_Messages\<close> (the structs
    of keygen.rs and sign.rs); \<open>Wire_Format\<close> (src/src/wire.rs).
  \<^item> \<open>Keygen\<close> (the dealer of src/src/keygen.rs), \<open>Key_File\<close> (its key file), \<open>Signing\<close> (sign.rs, verify.rs),
    \<open>Session\<close> (the loops of src/tests/common/mod.rs and of the spend tool), \<open>Abort\<close> (src/src/ia.rs).
  \<^item> \<open>Command_Line\<close> (src/src/bin/keygen.rs, generateaddress.rs) and \<open>Spend_Demo\<close>
    (src/src/bin/spenddemo.rs): functions from the arguments, the file system and the randomness to
    the lines that are printed.
  \<^item> \<open>Sample_Field\<close>, \<open>Sample_Suites\<close>, \<open>Sample_Host\<close>: concrete functions for every parameter, on which
    the witnesses run the definitions.

  The functions keep their Rust names; structs are records and enums datatypes with the fields and
  variants of the source; the body of a loop is a definition of its own with the suffix \<open>_step\<close> or
  \<open>_row\<close>. A function that cannot fail is a plain function, one that returns \<open>Result\<close> is an \<open>outcome\<close>,
  one that can only panic an option. Randomness is a state threaded through the calls (\<open>rng_lib\<close>).

  \<^bold>\<open>Code outside the repository\<close> is a parameter: \<open>curve_lib\<close>, \<open>k256_lib\<close> and \<open>dalek_lib\<close> for the curve and
  hash crates, \<open>transcript_lib\<close> for merlin, \<open>key_host\<close> for serde_yaml_ng, hex and the file system,
  \<open>btc_lib\<close> and \<open>spend_lib\<close> for the bitcoin crate, \<open>rng_lib\<close> for the generator. What is assumed of it
  stands in locales:
  \<^item> \<open>ordered_map\<close>, discharged by \<open>BTree_Map\<close> itself;
  \<^item> \<open>prime_subgroup\<close> and \<open>suite_contract\<close>, what the protocol needs of a ciphersuite: multiples of the
    generator form a group on which scalars act (nothing is assumed about points outside it but
    additivity), identifiers are different scalars, normalisation keeps or negates a pair. Signing,
    dealing and the abort rounds are proved in \<open>suite_contract\<close>, and the three ciphersuites satisfy
    it: sublocales of \<open>k256_contract\<close> and \<open>dalek_contract\<close>, the documented behaviour of the crates;
  \<^item> \<open>k256_scalars\<close>, canonical 32-byte scalars and field elements, for the byte-level verifier;
  \<^item> \<open>codec\<close>, \<open>canonical_codec\<close>, \<open>wire_contract\<close>, \<open>canonical_wire\<close>: an encoding with its parser. The
    three messages are sublocales. \<open>canonical_wire\<close> is not claimed of Ed25519, because dalek
    decompresses non-canonical y coordinates;
  \<^item> \<open>scalar_hasher\<close> and \<open>hashed_wire\<close>: a hasher is a function of the concatenated input;
  \<^item> \<open>key_files\<close>: parsing what was serialised and reading what was written gives it back.
  Each is interpreted on the sample libraries, so none is empty. The hash functions are arbitrary:
  security properties are stated up to an explicit collision or a zero challenge.

  \<^bold>\<open>What the lemmas show.\<close>
  \<^item> Keys: the dealer's output is an invariant (\<open>valid_keys\<close>: one polynomial, openable commitments, a
    symmetric table of pair keys), any quorum interpolates the key, when the dealer panics, and
    the outcomes and round trip of the key file.
  \<^item> Signing: every honest share exists, the blinding cancels, the aggregate verifies and is the
    signature of one reference Schnorr signer (\<open>Schnorr\<close>), a changed share is caught, every error and
    panic of \<open>sign\<close> and \<open>aggregate\<close>, whole sessions in any order (\<open>Session\<close>).
  \<^item> Abort: honest proofs are accepted, two accepting proofs give the witness (special soundness), a
    wrong response is blamed, who follows the protocol is not (\<open>Abort_Proof\<close>, \<open>Abort_Decide\<close>). \<open>decide\<close> is
    proved equal to a union of verdicts per signer, opened key and pair, from which these follow.
    \<open>Abort_Limits\<close> and \<open>Abort_Torsion\<close> state where the guarantee ends.
  \<^item> Bytes: round trip, uniqueness and refusal of the encodings, injectivity and domain separation of
    the hash inputs (\<open>Encodings\<close>), agreement of \<open>verify\<close> with the standalone BIP-340 and RFC 8032 verifiers.
  \<^item> Tools: keys printed twice are the same, and whatever the spend tool prints is a transaction with
    a valid signature that creates no money.

  \<^bold>\<open>Bounds and loops.\<close> Identifiers are 16-bit words and \<open>i + 1\<close> is written with both build profiles
  (\<open>ovf\<close>: overflow checks), which matters for 65535 signers. Amounts of the spend tool are 64-bit
  words with the checked subtraction of the source. All loops run over finite lists but one: the
  search for the second Ed25519 generator is a \<open>partial_function\<close> whose \<open>None\<close> is the loop that does
  not end or whose counter overflows, and it is proved when that happens. No fuel is used.

  \<^bold>\<open>Not modelled.\<close> src/src/lib.rs holds declarations, re-exports and documentation. Zeroisation of
  secrets on drop does not change values. The texts of the tools' error
  messages and of panics are left out, that they stop is not. The curves, hashes and the bitcoin
  encoding are parameters, so the pinned vectors of src/tests/vectors.rs cannot be evaluated.
  Timing and other side channels are outside a functional model, and zero knowledge and
  unforgeability, which speak of distributions, are not stated.
\<close>

end
